theory Spec2Isabelle
  imports Main "HOL-Library.Word" "HOL-Library.Signed_Division"
begin

unbundle bit_operations_syntax

section \<open>Data model of dda.c\<close>

text \<open>
  The firmware runs on an 8-bit AVR: \<open>long\<close> and \<open>int32_t\<close> are 32 bits wide, and every
  quantity of dda.c is a 32-bit machine integer. Unsigned values are read with \<open>unat\<close>,
  signed ones with \<open>sint\<close>; \<open>+\<close>, \<open>-\<close> and \<open>*\<close> wrap around as the hardware does.
\<close>

type_synonym u32 = "32 word"
type_synonym i32 = "32 word"
type_synonym u8 = "8 word"

text \<open>
  dda.h, which declares the three structures below, is not among the sources. Their
  fields and widths are read off dda.c: the \<open>memcpy\<close> of four \<open>uint32_t\<close> from the deltas
  to the step counts (line 444), the \<open>labs\<close> of position differences, the tests of the
  counters against zero, and the casts at line 585.
\<close>

text \<open>\<open>TARGET\<close>: four signed step positions and the feed rate.\<close>

record TARGET =
  X :: i32
  Y :: i32
  Z :: i32
  E :: i32
  F :: u32

text \<open>
  \<open>DDA\<close>: one move record, with the fields that dda.c uses when it is built with
  \<open>NEW_DDA_CALCULATIONS\<close> and \<open>ACCELERATION_RAMPING\<close> (the provided configuration).
  The one-bit flags cleared together by \<open>allflags = 0\<close> are booleans.
\<close>

record DDA =
  endpoint :: TARGET
  nullmove :: bool
  live :: bool
  x_direction :: bool
  y_direction :: bool
  z_direction :: bool
  e_direction :: bool
  x_delta :: u32
  y_delta :: u32
  z_delta :: u32
  e_delta :: u32
  total_steps :: u32
  c0 :: u32
  c_min :: u32
  rampup_steps :: u32
  rampdown_steps :: u32

text \<open>
  \<open>MOVE_STATE\<close>: the Bresenham counters (signed), the remaining step counts (unsigned)
  and the ramp state. The fields \<open>c\<close> and \<open>n\<close> of the source are \<open>ms_c\<close> and \<open>ms_n\<close> here.
\<close>

record MOVE_STATE =
  x_counter :: i32
  y_counter :: i32
  z_counter :: i32
  e_counter :: i32
  x_steps :: u32
  y_steps :: u32
  z_steps :: u32
  e_steps :: u32
  ms_c :: u32
  step_no :: u32
  ms_n :: i32

text \<open>
  Modelled from the spec: the hardware abstraction layer (pinio.h, timer.h), which is not
  among the sources and which the specification lists as the outbound interface (enable
  or disable a driver, set a direction, emit a pulse, program the next interrupt delay).
  Its calls are recorded by their observable effect: \<open>power_on\<close> and \<open>x_enable\<close> \dots\ set a flag,
  \<open>x_direction\<close> \dots\ store the direction output, \<open>x_step\<close> \dots\ count one pulse,
  \<open>setTimer v\<close> appends \<open>v\<close> to the list of programmed delays. \<open>unstep\<close> lowers the step
  pins again and leaves all of these unchanged; \<open>sei\<close>/\<open>cli\<close> and the debug output have no
  effect on the data.
\<close>

record HAL =
  power :: bool
  x_enabled :: bool
  y_enabled :: bool
  z_enabled :: bool
  e_enabled :: bool
  x_dir :: bool
  y_dir :: bool
  z_dir :: bool
  e_dir :: bool
  x_pulses :: nat
  y_pulses :: nat
  z_pulses :: nat
  e_pulses :: nat
  timer :: "u32 list"

text \<open>The global variables of dda.c and the hardware.\<close>

record state =
  startpoint :: TARGET
  current_position :: TARGET
  move_state :: MOVE_STATE
  steptimeout :: u8
  hal :: HAL

text \<open>
  Build-time configuration. Throughout, dda.c is taken as config.ramps-v1.3.h builds it:
  \<open>NEW_DDA_CALCULATIONS\<close> and \<open>ACCELERATION_RAMPING\<close> defined, \<open>ACCELERATION_REPRAP\<close>,
  \<open>ACCELERATION_TEMPORAL\<close> and \<open>DC_EXTRUDER\<close> not. \<open>F_CPU\<close> and \<open>E_ABSOLUTE\<close> are set in
  that file (16000000 and undefined); \<open>E_ABSOLUTE\<close> is kept as a flag so that both
  variants of the extruder code can be stated. \<open>ACCELERATION\<close> is the floating-point literal \<open>400.\<close>, so
  \<open>(uint32_t)(2000 * ACCELERATION)\<close> is the constant \<open>ACCEL_X2000\<close> (800000), and the
  argument of \<open>int_sqrt\<close>, \<open>(1000 * ACCELERATION * total_steps) / distance\<close>, is a
  floating-point quotient converted to an integer: it is the parameter \<open>accel_quotient\<close>
  of \<open>total_steps\<close> and \<open>distance\<close>. The macros \<open>MIN_CLOCKS_PER_STEP_*\<close> and
  \<open>STEPS_TO_UM\<close> and the helpers \<open>approx_distance_2d\<close>, \<open>approx_distance_3d\<close> and
  \<open>int_sqrt\<close> live in headers outside dda.c and are parameters as well.
\<close>

record cfg =
  F_CPU :: u32
  E_ABSOLUTE :: bool
  ACCEL_X2000 :: u32
  accel_quotient :: "u32 \<Rightarrow> u32 \<Rightarrow> u32"
  MIN_CLOCKS_PER_STEP_X :: u32
  MIN_CLOCKS_PER_STEP_Y :: u32
  MIN_CLOCKS_PER_STEP_Z :: u32
  MIN_CLOCKS_PER_STEP_E :: u32
  STEPS_TO_UM_X :: "u32 \<Rightarrow> u32"
  STEPS_TO_UM_Y :: "u32 \<Rightarrow> u32"
  STEPS_TO_UM_Z :: "u32 \<Rightarrow> u32"
  STEPS_TO_UM_E :: "u32 \<Rightarrow> u32"
  approx_distance_2d :: "u32 \<Rightarrow> u32 \<Rightarrow> u32"
  approx_distance_3d :: "u32 \<Rightarrow> u32 \<Rightarrow> u32 \<Rightarrow> u32"
  int_sqrt :: "u32 \<Rightarrow> u32"

text \<open>
  A division whose divisor is zero is undefined in C. The model stops there with an
  error that names the divisor.
\<close>

datatype divisor = Div_target_F | Div_total_steps | Div_distance | Div_int_sqrt
  | Div_c_limit | Div_ramp | Div_n

datatype error = DivByZero divisor

definition udiv :: "divisor \<Rightarrow> u32 \<Rightarrow> u32 \<Rightarrow> error + u32" where
  "udiv tag a b = (if b = 0 then Inl (DivByZero tag) else Inr (a div b))"

text \<open>Signed 32-bit division of C: the quotient is truncated towards zero.\<close>

definition sdiv32 :: "i32 \<Rightarrow> i32 \<Rightarrow> i32" where
  "sdiv32 a b = word_of_int (sint a sdiv sint b)"

text \<open>\<open>labs\<close> on a 32-bit \<open>long\<close>.\<close>

definition labs :: "i32 \<Rightarrow> i32" where
  "labs v = (if v <s 0 then - v else v)"

section \<open>dda\_init\<close>

text \<open>
  With \<open>NEW_DDA_CALCULATIONS\<close>: the default feed rate (the parameter \<open>feed\<close>, the macro
  \<open>SEARCH_FEEDRATE_Z\<close>), \<open>move_state.n = 1\<close> and \<open>move_state.c = 2500\<close>. The variable
  \<open>next_target\<close>, which also receives the feed rate, belongs to the G-code parser.
\<close>

definition dda_init :: "u32 \<Rightarrow> state \<Rightarrow> state" where
  "dda_init feed s =
     s\<lparr>current_position := (current_position s)\<lparr>F := feed\<rparr>,
       startpoint := (startpoint s)\<lparr>F := feed\<rparr>,
       move_state := (move_state s)\<lparr>ms_n := 1, ms_c := 2500\<rparr>\<rparr>"

section \<open>dda\_create: the planner\<close>

text \<open>Lines 87 to 119: flags cleared, endpoint, deltas, directions, largest step count.\<close>

definition plan_deltas :: "DDA \<Rightarrow> TARGET \<Rightarrow> TARGET \<Rightarrow> DDA" where
  "plan_deltas dda target sp =
     (let xd = labs (X target - X sp);
          yd = labs (Y target - Y sp);
          zd = labs (Z target - Z sp);
          ed = labs (E target - E sp);
          ts0 = xd;
          ts1 = (if yd > ts0 then yd else ts0);
          ts2 = (if zd > ts1 then zd else ts1);
          ts3 = (if ed > ts2 then ed else ts2)
      in dda\<lparr>nullmove := False, live := False,
             endpoint := target,
             x_delta := xd, y_delta := yd, z_delta := zd, e_delta := ed,
             x_direction := (X sp \<le>s X target),
             y_direction := (Y sp \<le>s Y target),
             z_direction := (Z sp \<le>s Z target),
             e_direction := (E sp \<le>s E target),
             total_steps := ts3\<rparr>)"

text \<open>Lines 137 to 149: the distance of the X/Y/Z part of the move, in micrometres.\<close>

definition planar_distance :: "cfg \<Rightarrow> DDA \<Rightarrow> u32" where
  "planar_distance cf dda =
     (if z_delta dda = 0 then
        (if x_delta dda = 0 then STEPS_TO_UM_Y cf (y_delta dda)
         else if y_delta dda = 0 then STEPS_TO_UM_X cf (x_delta dda)
         else approx_distance_2d cf (STEPS_TO_UM_X cf (x_delta dda))
                (STEPS_TO_UM_Y cf (y_delta dda)))
      else if x_delta dda = 0 \<and> y_delta dda = 0 then STEPS_TO_UM_Z cf (z_delta dda)
      else approx_distance_3d cf (STEPS_TO_UM_X cf (x_delta dda))
             (STEPS_TO_UM_Y cf (y_delta dda)) (STEPS_TO_UM_Z cf (z_delta dda)))"

text \<open>Lines 153 to 157: the extruder feed is folded in when \<open>distance < (e_feed << 3)\<close>.\<close>

definition fold_e_feed :: "cfg \<Rightarrow> u32 \<Rightarrow> u32 \<Rightarrow> u32" where
  "fold_e_feed cf distance e_feed =
     (if distance < push_bit 3 e_feed then approx_distance_2d cf distance e_feed
      else distance)"

definition move_distance :: "cfg \<Rightarrow> DDA \<Rightarrow> u32" where
  "move_distance cf dda =
     fold_e_feed cf (planar_distance cf dda) (STEPS_TO_UM_E cf (e_delta dda))"

text \<open>
  Lines 187 and 225 to 254: \<open>move_duration = distance * 60\<close>, the clock ticks of the
  whole move at the requested feed, raised to what each axis needs at its top speed,
  then divided by \<open>total_steps\<close>. \<open>TIME_SCALING\<close> is \<open>F_CPU / 1000\<close>.
\<close>

definition limiting_ticks :: "cfg \<Rightarrow> DDA \<Rightarrow> u32 \<Rightarrow> u32" where
  "limiting_ticks cf dda q =
     (let l0 = (F_CPU cf div 1000) * q;
          mx = x_delta dda * MIN_CLOCKS_PER_STEP_X cf;
          l1 = (if mx > l0 then mx else l0);
          my = y_delta dda * MIN_CLOCKS_PER_STEP_Y cf;
          l2 = (if my > l1 then my else l1);
          mz = z_delta dda * MIN_CLOCKS_PER_STEP_Z cf;
          l3 = (if mz > l2 then mz else l2);
          me = e_delta dda * MIN_CLOCKS_PER_STEP_E cf;
          l4 = (if me > l3 then me else l3)
      in l4)"

definition plan_c_limit :: "cfg \<Rightarrow> DDA \<Rightarrow> TARGET \<Rightarrow> u32 \<Rightarrow> error + u32" where
  "plan_c_limit cf dda target distance =
     (case udiv Div_target_F (distance * 60) (F target) of
        Inl e \<Rightarrow> Inl e
      | Inr q \<Rightarrow> udiv Div_total_steps (limiting_ticks cf dda q) (total_steps dda))"

text \<open>
  Line 262: \<open>c0 = (F_CPU / int_sqrt((1000 * ACCELERATION * total_steps) / distance)) << 8\<close>.
  The inner division is a floating-point one. With a zero distance its quotient is not a
  number that converts to an integer; the model reports that as a division by zero too.
\<close>

definition plan_c0 :: "cfg \<Rightarrow> DDA \<Rightarrow> u32 \<Rightarrow> error + u32" where
  "plan_c0 cf dda distance =
     (if distance = 0 then Inl (DivByZero Div_distance)
      else case udiv Div_int_sqrt (F_CPU cf)
                  (int_sqrt cf (accel_quotient cf (total_steps dda) distance)) of
             Inl e \<Rightarrow> Inl e
           | Inr q \<Rightarrow> Inr (push_bit 8 q))"

text \<open>Lines 352 to 369: the length of the ramp before clipping.\<close>

definition ramp_divisor :: "cfg \<Rightarrow> DDA \<Rightarrow> u32" where
  "ramp_divisor cf dda = drop_bit 6 (drop_bit 6 (ACCEL_X2000 cf) * total_steps dda)"

definition natural_rampup :: "cfg \<Rightarrow> DDA \<Rightarrow> u32 \<Rightarrow> u32 \<Rightarrow> error + u32" where
  "natural_rampup cf dda c_limit distance =
     (case udiv Div_c_limit (F_CPU cf) c_limit of
        Inl e \<Rightarrow> Inl e
      | Inr x0 \<Rightarrow>
          udiv Div_ramp (drop_bit 12 (x0 * x0) * distance) (ramp_divisor cf dda))"

text \<open>Lines 373 to 380: clipping, and the step number at which the ramp down starts.\<close>

definition clip_ramps :: "DDA \<Rightarrow> u32 \<Rightarrow> DDA" where
  "clip_ramps dda x =
     (let ru = (if 2 * x > total_steps dda then total_steps dda div 2 else x)
      in dda\<lparr>rampup_steps := ru, rampdown_steps := total_steps dda - ru\<rparr>)"

text \<open>The \<open>else\<close> branch of line 127, after the drivers are switched on.\<close>

definition plan_timing :: "cfg \<Rightarrow> DDA \<Rightarrow> TARGET \<Rightarrow> error + DDA" where
  "plan_timing cf dda target =
     (let distance = move_distance cf dda in
      case plan_c_limit cf dda target distance of
        Inl e \<Rightarrow> Inl e
      | Inr c_limit \<Rightarrow>
          (case plan_c0 cf dda distance of
             Inl e \<Rightarrow> Inl e
           | Inr c0v \<Rightarrow>
               (case natural_rampup cf dda c_limit distance of
                  Inl e \<Rightarrow> Inl e
                | Inr x \<Rightarrow>
                    Inr (clip_ramps (dda\<lparr>c0 := c0v, c_min := push_bit 8 c_limit\<rparr>) x))))"

text \<open>
  The value of \<open>x\<close> that line 369 stores in \<open>rampup_steps\<close> before the clipping: the
  ramp length computed from the \<open>c_limit\<close> of line 254 and the distance of the move.
\<close>

definition planned_rampup :: "cfg \<Rightarrow> DDA \<Rightarrow> TARGET \<Rightarrow> error + u32" where
  "planned_rampup cf dda target =
     (let distance = move_distance cf dda in
      case plan_c_limit cf dda target distance of
        Inl e \<Rightarrow> Inl e
      | Inr c_limit \<Rightarrow> natural_rampup cf dda c_limit distance)"

text \<open>Lines 398 to 403: the next move starts where this one ends.\<close>

definition next_startpoint :: "cfg \<Rightarrow> TARGET \<Rightarrow> TARGET" where
  "next_startpoint cf target = (if E_ABSOLUTE cf then target else target\<lparr>E := 0\<rparr>)"

definition dda_create :: "cfg \<Rightarrow> DDA \<Rightarrow> TARGET \<Rightarrow> state \<Rightarrow> error + (DDA \<times> state)" where
  "dda_create cf dda target s =
     (let dda1 = plan_deltas dda target (startpoint s) in
      if total_steps dda1 = 0 then
        Inr (dda1\<lparr>nullmove := True\<rparr>, s\<lparr>startpoint := next_startpoint cf target\<rparr>)
      else
        (case plan_timing cf dda1 target of
           Inl e \<Rightarrow> Inl e
         | Inr dda2 \<Rightarrow>
             Inr (dda2,
                  s\<lparr>steptimeout := 0,
                    hal := (hal s)\<lparr>power := True, x_enabled := True, y_enabled := True,
                                   e_enabled := True\<rparr>,
                    startpoint := next_startpoint cf target\<rparr>)))"

section \<open>dda\_start: the activator\<close>

text \<open>The value given to \<open>setTimer\<close> at lines 458 to 461 and 625 to 628.\<close>

definition timer_value :: "DDA \<Rightarrow> MOVE_STATE \<Rightarrow> u32" where
  "timer_value dda ms =
     (if c_min dda > ms_c ms then drop_bit 8 (c_min dda) else drop_bit 8 (ms_c ms))"

definition setTimer :: "u32 \<Rightarrow> HAL \<Rightarrow> HAL" where
  "setTimer v h = h\<lparr>timer := timer h @ [v]\<rparr>"

definition dda_start :: "DDA \<Rightarrow> state \<Rightarrow> DDA \<times> state" where
  "dda_start dda s =
     (if nullmove dda then
        (dda, s\<lparr>current_position := (current_position s)\<lparr>F := F (endpoint dda)\<rparr>\<rparr>)
      else
        (let h1 = (if z_delta dda \<noteq> 0 then (hal s)\<lparr>z_enabled := True\<rparr> else hal s);
             h2 = h1\<lparr>x_dir := x_direction dda, y_dir := y_direction dda,
                     z_dir := z_direction dda, e_dir := e_direction dda\<rparr>;
             cnt = - (drop_bit 1 (total_steps dda));
             ms = (move_state s)\<lparr>x_counter := cnt, y_counter := cnt, z_counter := cnt,
                     e_counter := cnt,
                     x_steps := x_delta dda, y_steps := y_delta dda,
                     z_steps := z_delta dda, e_steps := e_delta dda,
                     step_no := 0, ms_c := c0 dda\<rparr>;
             dda1 = dda\<lparr>live := True\<rparr>
         in (dda1, s\<lparr>steptimeout := 0, move_state := ms,
                     hal := setTimer (timer_value dda1 ms) h2\<rparr>)))"

section \<open>dda\_step: the step generator\<close>

text \<open>
  Lines 483 to 524 treat each axis alike: while the axis has steps left, its counter is
  lowered by the axis' delta, and a counter below zero makes a pulse, takes one step off
  and adds \<open>total_steps\<close> back. The result is the counter, the steps left and whether
  the axis stepped.
\<close>

definition bresenham :: "i32 \<Rightarrow> u32 \<Rightarrow> u32 \<Rightarrow> u32 \<Rightarrow> i32 \<times> u32 \<times> bool" where
  "bresenham counter steps delta ts =
     (if steps \<noteq> 0 then
        (if counter - delta <s 0 then (counter - delta + ts, steps - 1, True)
         else (counter - delta, steps, False))
      else (counter, steps, False))"

definition step_axes :: "DDA \<Rightarrow> MOVE_STATE \<Rightarrow> MOVE_STATE" where
  "step_axes dda ms =
     (let rx = bresenham (x_counter ms) (x_steps ms) (x_delta dda) (total_steps dda);
          ry = bresenham (y_counter ms) (y_steps ms) (y_delta dda) (total_steps dda);
          rz = bresenham (z_counter ms) (z_steps ms) (z_delta dda) (total_steps dda);
          re = bresenham (e_counter ms) (e_steps ms) (e_delta dda) (total_steps dda)
      in ms\<lparr>x_counter := fst rx, x_steps := fst (snd rx),
            y_counter := fst ry, y_steps := fst (snd ry),
            z_counter := fst rz, z_steps := fst (snd rz),
            e_counter := fst re, e_steps := fst (snd re)\<rparr>)"

definition x_stepped :: "DDA \<Rightarrow> MOVE_STATE \<Rightarrow> bool" where
  "x_stepped dda ms =
     snd (snd (bresenham (x_counter ms) (x_steps ms) (x_delta dda) (total_steps dda)))"

definition y_stepped :: "DDA \<Rightarrow> MOVE_STATE \<Rightarrow> bool" where
  "y_stepped dda ms =
     snd (snd (bresenham (y_counter ms) (y_steps ms) (y_delta dda) (total_steps dda)))"

definition z_stepped :: "DDA \<Rightarrow> MOVE_STATE \<Rightarrow> bool" where
  "z_stepped dda ms =
     snd (snd (bresenham (z_counter ms) (z_steps ms) (z_delta dda) (total_steps dda)))"

definition e_stepped :: "DDA \<Rightarrow> MOVE_STATE \<Rightarrow> bool" where
  "e_stepped dda ms =
     snd (snd (bresenham (e_counter ms) (e_steps ms) (e_delta dda) (total_steps dda)))"

definition did_step :: "DDA \<Rightarrow> MOVE_STATE \<Rightarrow> bool" where
  "did_step dda ms =
     (x_stepped dda ms \<or> y_stepped dda ms \<or> z_stepped dda ms \<or> e_stepped dda ms)"

definition step_pulses :: "DDA \<Rightarrow> MOVE_STATE \<Rightarrow> HAL \<Rightarrow> HAL" where
  "step_pulses dda ms h =
     h\<lparr>x_pulses := x_pulses h + (if x_stepped dda ms then 1 else 0),
       y_pulses := y_pulses h + (if y_stepped dda ms then 1 else 0),
       z_pulses := z_pulses h + (if z_stepped dda ms then 1 else 0),
       e_pulses := e_pulses h + (if e_stepped dda ms then 1 else 0)\<rparr>"

text \<open>
  Lines 571 to 587, the ramp. \<open>force_n\<close> is the sign correction of \<open>move_state.n\<close>,
  \<open>recalc_speed\<close> the flag of the source. The division at line 585 is signed; a zero
  \<open>n\<close> there is reported as an error.
\<close>

definition recalc_speed :: "DDA \<Rightarrow> MOVE_STATE \<Rightarrow> bool" where
  "recalc_speed dda ms =
     (step_no ms < rampup_steps dda \<or> step_no ms > rampdown_steps dda)"

definition force_n :: "DDA \<Rightarrow> MOVE_STATE \<Rightarrow> i32" where
  "force_n dda ms =
     (if step_no ms < rampup_steps dda then
        (if ms_n ms <s 0 then - 2 - ms_n ms else ms_n ms)
      else if step_no ms > rampdown_steps dda then
        (if 0 <s ms_n ms then - 2 - ms_n ms else ms_n ms)
      else ms_n ms)"

definition ramp_update :: "DDA \<Rightarrow> MOVE_STATE \<Rightarrow> error + MOVE_STATE" where
  "ramp_update dda ms =
     (if recalc_speed dda ms then
        (let n1 = force_n dda ms + 4 in
         if n1 = 0 then Inl (DivByZero Div_n)
         else Inr (ms\<lparr>ms_n := n1, ms_c := ms_c ms - sdiv32 (ms_c ms * 2) n1,
                      step_no := step_no ms + 1\<rparr>))
      else Inr (ms\<lparr>step_no := step_no ms + 1\<rparr>))"

text \<open>Line 603: no axis stepped in this invocation and no axis has steps left.\<close>

definition finished :: "DDA \<Rightarrow> MOVE_STATE \<Rightarrow> MOVE_STATE \<Rightarrow> bool" where
  "finished dda ms ms2 =
     (\<not> did_step dda ms \<and> x_steps ms2 = 0 \<and> y_steps ms2 = 0 \<and> z_steps ms2 = 0
      \<and> e_steps ms2 = 0)"

definition finish_position :: "cfg \<Rightarrow> DDA \<Rightarrow> TARGET \<Rightarrow> TARGET" where
  "finish_position cf dda cp =
     (if E_ABSOLUTE cf then cp\<lparr>F := F (endpoint dda)\<rparr>
      else cp\<lparr>E := 0, F := F (endpoint dda)\<rparr>)"

definition dda_step :: "cfg \<Rightarrow> DDA \<Rightarrow> state \<Rightarrow> error + (DDA \<times> state)" where
  "dda_step cf dda s =
     (let ms = move_state s;
          h1 = step_pulses dda ms (hal s)
      in case ramp_update dda (step_axes dda ms) of
           Inl e \<Rightarrow> Inl e
         | Inr ms2 \<Rightarrow>
             (if did_step dda ms then
                Inr (dda, s\<lparr>steptimeout := 0, move_state := ms2,
                            hal := setTimer (timer_value dda ms2) h1\<rparr>)
              else if finished dda ms ms2 then
                Inr (dda\<lparr>live := False\<rparr>,
                     s\<lparr>current_position := finish_position cf dda (current_position s),
                       move_state := ms2,
                       hal := setTimer (timer_value dda ms2) (h1\<lparr>z_enabled := False\<rparr>)\<rparr>)
              else
                Inr (dda, s\<lparr>move_state := ms2,
                            hal := setTimer (timer_value dda ms2) h1\<rparr>)))"

section \<open>update\_position: the position tracker\<close>

text \<open>The record \<open>movebuffer[mb_tail]\<close> of the queue is the argument \<open>dda\<close>.\<close>

definition update_position :: "cfg \<Rightarrow> DDA \<Rightarrow> state \<Rightarrow> state" where
  "update_position cf dda s =
     (if \<not> live dda then s
      else
        (let ms = move_state s; ep = endpoint dda; cp = current_position s;
             cp1 = cp\<lparr>X := (if x_direction dda then X ep - x_steps ms else X ep + x_steps ms),
                      Y := (if y_direction dda then Y ep - y_steps ms else Y ep + y_steps ms),
                      Z := (if z_direction dda then Z ep - z_steps ms else Z ep + z_steps ms)\<rparr>;
             cp2 = (if E_ABSOLUTE cf then
                      cp1\<lparr>E := (if e_direction dda then E ep - e_steps ms
                                 else E ep + e_steps ms)\<rparr>
                    else cp1\<lparr>E := e_steps ms\<rparr>)
         in s\<lparr>current_position := cp2\<rparr>))"

section \<open>Executing a move\<close>

text \<open>
  A started record is driven by the timer interrupt, which calls \<open>dda_step\<close> (\<open>Tick\<close>),
  while the foreground code may call \<open>update_position\<close> at any moment between two
  interrupts (\<open>Refresh\<close>).
\<close>

datatype event = Tick | Refresh

fun exec :: "cfg \<Rightarrow> event list \<Rightarrow> DDA \<Rightarrow> state \<Rightarrow> error + (DDA \<times> state)" where
  "exec cf [] dda s = Inr (dda, s)"
| "exec cf (Tick # evs) dda s =
     (case dda_step cf dda s of
        Inl e \<Rightarrow> Inl e
      | Inr r \<Rightarrow> exec cf evs (fst r) (snd r))"
| "exec cf (Refresh # evs) dda s = exec cf evs dda (update_position cf dda s)"

text \<open>\<open>ticks cf k\<close>: \<open>k\<close> timer interrupts in a row.\<close>

definition ticks :: "cfg \<Rightarrow> nat \<Rightarrow> DDA \<Rightarrow> state \<Rightarrow> error + (DDA \<times> state)" where
  "ticks cf k dda s = exec cf (replicate k Tick) dda s"

section \<open>An example configuration\<close>

text \<open>
  For evaluating the model on concrete moves: the constants that config.ramps-v1.3.h
  gives (\<open>F_CPU\<close> 16 MHz, \<open>ACCELERATION\<close> 400, relative extruder), and plain stand-ins
  for the macros and helpers of the other headers: 12 and 3 micrometres per step, the
  quotient of the integers, a coarse distance estimate (the larger value plus half the smaller)
  and the integer square root found bit by bit. No theorem about the program depends
  on these choices; they only provide inputs.
\<close>

fun sqrt_bits :: "nat \<Rightarrow> u32 \<Rightarrow> u32 \<Rightarrow> u32" where
  "sqrt_bits 0 v r = (if (r + 1) * (r + 1) \<le> v then r + 1 else r)"
| "sqrt_bits (Suc k) v r =
     sqrt_bits k v
       (if (r + push_bit (Suc k) 1) * (r + push_bit (Suc k) 1) \<le> v
        then r + push_bit (Suc k) 1 else r)"

definition example_sqrt :: "u32 \<Rightarrow> u32" where
  "example_sqrt v = sqrt_bits 15 v 0"

text \<open>
  The quotient \<open>(1000 * ACCELERATION * total_steps) / distance\<close> is computed over the
  integers, without the 32-bit wrap-around that the floating-point product of the source
  does not have, and rounded down as the conversion to \<open>uint32_t\<close> does. The rounding of
  the floating-point operations themselves is not modelled.
\<close>

definition example_quotient :: "u32 \<Rightarrow> u32 \<Rightarrow> u32" where
  "example_quotient ts d = word_of_int ((400000 * uint ts) div uint d)"

definition example_um12 :: "u32 \<Rightarrow> u32" where
  "example_um12 k = k * 12"

definition example_um3 :: "u32 \<Rightarrow> u32" where
  "example_um3 k = k * 3"

definition example_2d :: "u32 \<Rightarrow> u32 \<Rightarrow> u32" where
  "example_2d a b = max a b + drop_bit 1 (min a b)"

definition example_3d :: "u32 \<Rightarrow> u32 \<Rightarrow> u32 \<Rightarrow> u32" where
  "example_3d a b d = max a (max b d) + drop_bit 1 (min a (min b d))"

definition example_cfg :: cfg where
  "example_cfg =
     \<lparr>F_CPU = 16000000, E_ABSOLUTE = False, ACCEL_X2000 = 800000,
      accel_quotient = example_quotient,
      MIN_CLOCKS_PER_STEP_X = 2857, MIN_CLOCKS_PER_STEP_Y = 2857,
      MIN_CLOCKS_PER_STEP_Z = 2500, MIN_CLOCKS_PER_STEP_E = 2500,
      STEPS_TO_UM_X = example_um12, STEPS_TO_UM_Y = example_um12,
      STEPS_TO_UM_Z = example_um3, STEPS_TO_UM_E = example_um3,
      approx_distance_2d = example_2d, approx_distance_3d = example_3d,
      int_sqrt = example_sqrt\<rparr>"

definition origin :: TARGET where
  "origin = \<lparr>X = 0, Y = 0, Z = 0, E = 0, F = 0\<rparr>"

definition blank_dda :: DDA where
  "blank_dda =
     \<lparr>endpoint = origin, nullmove = False, live = False,
      x_direction = False, y_direction = False, z_direction = False, e_direction = False,
      x_delta = 0, y_delta = 0, z_delta = 0, e_delta = 0, total_steps = 0,
      c0 = 0, c_min = 0, rampup_steps = 0, rampdown_steps = 0\<rparr>"

text \<open>The variables as they are after reset (all zero) and \<open>dda_init\<close> with feed 100.\<close>

definition blank_state :: state where
  "blank_state =
     \<lparr>startpoint = origin, current_position = origin,
      move_state = \<lparr>x_counter = 0, y_counter = 0, z_counter = 0, e_counter = 0,
                    x_steps = 0, y_steps = 0, z_steps = 0, e_steps = 0,
                    ms_c = 0, step_no = 0, ms_n = 0\<rparr>,
      steptimeout = 0,
      hal = \<lparr>power = False, x_enabled = False, y_enabled = False, z_enabled = False,
             e_enabled = False, x_dir = False, y_dir = False, z_dir = False, e_dir = False,
             x_pulses = 0, y_pulses = 0, z_pulses = 0, e_pulses = 0, timer = []\<rparr>\<rparr>"

definition init_state :: state where
  "init_state = dda_init 100 blank_state"

text \<open>Concrete moves, planned from \<open>init_state\<close> with the example configuration.\<close>

definition move_a :: TARGET where
  "move_a = \<lparr>X = 6, Y = 3, Z = 0, E = 2, F = 3000\<rparr>"

definition planned_a :: DDA where
  "planned_a =
     \<lparr>endpoint = move_a, nullmove = False, live = False,
      x_direction = True, y_direction = True, z_direction = True, e_direction = True,
      x_delta = 6, y_delta = 3, z_delta = 0, e_delta = 2, total_steps = 6,
      c0 = 25128704, c_min = 731392, rampup_steps = 3, rampdown_steps = 3\<rparr>"

definition state_a :: state where
  "state_a =
     init_state\<lparr>steptimeout := 0,
       hal := (hal init_state)\<lparr>power := True, x_enabled := True, y_enabled := True,
                                e_enabled := True\<rparr>,
       startpoint := move_a\<lparr>E := 0\<rparr>\<rparr>"

definition move_b :: TARGET where
  "move_b = \<lparr>X = 668, Y = 0, Z = 0, E = 334, F = 3000\<rparr>"

text \<open>
  A very long move along Y at the lowest feed rate, and the record and state that the
  planner makes of it.
\<close>

definition move_c :: TARGET where
  "move_c = \<lparr>X = 915, Y = 1217021933, Z = 0, E = 735, F = 1\<rparr>"

definition planned_c :: DDA where
  "planned_c =
     \<lparr>endpoint = move_c, nullmove = False, live = False,
      x_direction = True, y_direction = True, z_direction = True, e_direction = True,
      x_delta = 915, y_delta = 1217021933, z_delta = 0, e_delta = 735,
      total_steps = 1217021933,
      c0 = 7699200, c_min = 256, rampup_steps = 2641161728, rampdown_steps = 2870827501\<rparr>"

definition state_c :: state where
  "state_c =
     init_state\<lparr>steptimeout := 0,
       hal := (hal init_state)\<lparr>power := True, x_enabled := True, y_enabled := True,
                                e_enabled := True\<rparr>,
       startpoint := move_c\<lparr>E := 0\<rparr>\<rparr>"


text \<open>\<open>move_a\<close> after activation, and after the events \<open>run_a\<close> that complete it.\<close>

definition started_a :: DDA where
  "started_a = planned_a\<lparr>live := True\<rparr>"

definition running_a :: state where
  "running_a =
     \<lparr>startpoint = \<lparr>X = 6, Y = 3, Z = 0, E = 0, F = 3000\<rparr>,
      current_position = \<lparr>X = 0, Y = 0, Z = 0, E = 0, F = 100\<rparr>,
      move_state = \<lparr>x_counter = - 3, y_counter = - 3, z_counter = - 3, e_counter = - 3,
                    x_steps = 6, y_steps = 3, z_steps = 0, e_steps = 2,
                    ms_c = 25128704, step_no = 0, ms_n = 1\<rparr>,
      steptimeout = 0,
      hal = \<lparr>power = True, x_enabled = True, y_enabled = True, z_enabled = False,
             e_enabled = True, x_dir = True, y_dir = True, z_dir = True, e_dir = True,
             x_pulses = 0, y_pulses = 0, z_pulses = 0, e_pulses = 0, timer = [98159]\<rparr>\<rparr>"


definition final_a :: state where
  "final_a =
     \<lparr>startpoint = \<lparr>X = 6, Y = 3, Z = 0, E = 0, F = 3000\<rparr>,
      current_position = \<lparr>X = 6, Y = 3, Z = 0, E = 0, F = 3000\<rparr>,
      move_state = \<lparr>x_counter = - 3, y_counter = 3, z_counter = - 3, e_counter = 5,
                    x_steps = 0, y_steps = 0, z_steps = 0, e_steps = 0,
                    ms_c = 25128705, step_no = 7, ms_n = - 3\<rparr>,
      steptimeout = 0,
      hal = \<lparr>power = True, x_enabled = True, y_enabled = True, z_enabled = False,
             e_enabled = True, x_dir = True, y_dir = True, z_dir = True, e_dir = True,
             x_pulses = 6, y_pulses = 3, z_pulses = 0, e_pulses = 2,
             timer = [98159, 58895, 45807, 38760, 38760, 45807, 58895, 98159]\<rparr>\<rparr>"


text \<open>The same move driven by seven interrupts without any call of \<open>update_position\<close>.\<close>

definition final_b :: state where
  "final_b = final_a\<lparr>current_position := \<lparr>X = 0, Y = 0, Z = 0, E = 0, F = 3000\<rparr>\<rparr>"

text \<open>The state after the first interrupt of \<open>move_a\<close>.\<close>

definition second_a :: state where
  "second_a =
     \<lparr>startpoint = \<lparr>X = 6, Y = 3, Z = 0, E = 0, F = 3000\<rparr>,
      current_position = \<lparr>X = 0, Y = 0, Z = 0, E = 0, F = 100\<rparr>,
      move_state = \<lparr>x_counter = - 3, y_counter = 0, z_counter = - 3, e_counter = 1,
                    x_steps = 5, y_steps = 2, z_steps = 0, e_steps = 1,
                    ms_c = 15077223, step_no = 1, ms_n = 5\<rparr>,
      steptimeout = 0,
      hal = \<lparr>power = True, x_enabled = True, y_enabled = True, z_enabled = False,
             e_enabled = True, x_dir = True, y_dir = True, z_dir = True, e_dir = True,
             x_pulses = 1, y_pulses = 1, z_pulses = 0, e_pulses = 1,
             timer = [98159, 58895]\<rparr>\<rparr>"

section \<open>Invariants of the step generator\<close>

text \<open>
  \<open>n_ok\<close>: the ramp counter \<open>n\<close> is congruent to 1 modulo 4. \<open>dda_init\<close> sets it to 1 and
  the step generator only negates it around \<open>-1\<close> (\<open>n := -2 - n\<close>) or adds 4.
\<close>

definition n_ok :: "MOVE_STATE \<Rightarrow> bool" where
  "n_ok ms \<longleftrightarrow> sint (ms_n ms) mod 4 = 1"

text \<open>
  One axis after \<open>k\<close> interrupts of a move with \<open>ts\<close> total steps: either no step is left,
  or the counter is its start value \<open>-(ts div 2)\<close>, lowered \<open>k\<close> times by the delta \<open>d\<close>
  and raised by \<open>ts\<close> once for each step taken, and lies between the start value and \<open>ts\<close>.
\<close>

definition axis_ok :: "nat \<Rightarrow> u32 \<Rightarrow> u32 \<Rightarrow> i32 \<Rightarrow> u32 \<Rightarrow> bool" where
  "axis_ok k ts d c r \<longleftrightarrow>
     r = 0 \<or>
     (sint c = - (uint ts div 2) - int k * uint d
                + (uint d - uint r) * uint ts
      \<and> - (uint ts div 2) \<le> sint c \<and> sint c < uint ts)"

text \<open>An axis whose delta is \<open>total_steps\<close> steps at every interrupt.\<close>

definition lead_ok :: "nat \<Rightarrow> u32 \<Rightarrow> i32 \<Rightarrow> u32 \<Rightarrow> bool" where
  "lead_ok k ts c r \<longleftrightarrow>
     sint c = - (uint ts div 2) \<and> uint r + int k = uint ts"

definition axes_ok :: "nat \<Rightarrow> DDA \<Rightarrow> MOVE_STATE \<Rightarrow> bool" where
  "axes_ok k dda ms \<longleftrightarrow>
     axis_ok k (total_steps dda) (x_delta dda) (x_counter ms) (x_steps ms)
     \<and> axis_ok k (total_steps dda) (y_delta dda) (y_counter ms) (y_steps ms)
     \<and> axis_ok k (total_steps dda) (z_delta dda) (z_counter ms) (z_steps ms)
     \<and> axis_ok k (total_steps dda) (e_delta dda) (e_counter ms) (e_steps ms)"

definition lead_axis :: "nat \<Rightarrow> DDA \<Rightarrow> MOVE_STATE \<Rightarrow> bool" where
  "lead_axis k dda ms \<longleftrightarrow>
     (x_delta dda = total_steps dda \<and> lead_ok k (total_steps dda) (x_counter ms) (x_steps ms))
     \<or> (y_delta dda = total_steps dda \<and> lead_ok k (total_steps dda) (y_counter ms) (y_steps ms))
     \<or> (z_delta dda = total_steps dda \<and> lead_ok k (total_steps dda) (z_counter ms) (z_steps ms))
     \<or> (e_delta dda = total_steps dda \<and> lead_ok k (total_steps dda) (e_counter ms) (e_steps ms))"

text \<open>The deltas of a record never exceed its \<open>total_steps\<close>, which stays below \<open>2 ^ 30\<close>.\<close>

definition in_range :: "DDA \<Rightarrow> bool" where
  "in_range dda \<longleftrightarrow>
     uint (total_steps dda) < 1073741824
     \<and> x_delta dda \<le> total_steps dda \<and> y_delta dda \<le> total_steps dda
     \<and> z_delta dda \<le> total_steps dda \<and> e_delta dda \<le> total_steps dda"

text \<open>No axis has steps left.\<close>

definition steps_done :: "MOVE_STATE \<Rightarrow> bool" where
  "steps_done ms \<longleftrightarrow> x_steps ms = 0 \<and> y_steps ms = 0 \<and> z_steps ms = 0 \<and> e_steps ms = 0"


text \<open>What the completing invocation leaves behind.\<close>

definition settled :: "cfg \<Rightarrow> DDA \<Rightarrow> state \<Rightarrow> bool" where
  "settled cf dda s \<longleftrightarrow>
     steps_done (move_state s) \<and> F (current_position s) = F (endpoint dda)
     \<and> (E_ABSOLUTE cf \<or> E (current_position s) = 0)"

section \<open>32-bit arithmetic\<close>

lemma sint_diff: "sint (a - b :: 32 word) = signed_take_bit 31 (sint a - sint b)"
  by transfer (simp add: signed_take_bit_diff)
lemma sint_sum: "sint (a + b :: 32 word) = signed_take_bit 31 (sint a + sint b)"
  by transfer (simp add: signed_take_bit_add)
lemma sint_neg: "sint (- a :: 32 word) = signed_take_bit 31 (- sint a)"
  by transfer (simp add: signed_take_bit_minus)

lemma sint_bounds32: "- 2147483648 \<le> sint (a :: 32 word)" "sint (a :: 32 word) < 2147483648"
  using sint_ge[of a] sint_lt[of a] by simp_all

lemma stb_self: "- 2147483648 \<le> k \<Longrightarrow> k < 2147483648 \<Longrightarrow> signed_take_bit 31 k = (k::int)"
  by (rule signed_take_bit_int_eq_self) simp_all

lemma mod4_shift:
  assumes "(4::int) dvd a" and "4 dvd b"
  shows "((k + a) mod b - a) mod 4 = k mod 4"
proof -
  have "((k + a) mod b - a) mod 4 = ((k + a) mod b mod 4 - a mod 4) mod 4"
    by (simp only: mod_diff_eq)
  also have "(k + a) mod b mod 4 = (k + a) mod 4"
    using assms(2) by (rule mod_mod_cancel)
  also have "a mod 4 = 0" using assms(1) by simp
  also have "((k + a) mod 4 - 0) mod 4 = (k + a) mod 4" by simp
  also have "\<dots> = k mod 4" using assms(1) by (metis mod_add_self2 dvd_eq_mod_eq_0 mod_add_right_eq add.right_neutral)
  finally show ?thesis .
qed

lemma stb_mod4: "signed_take_bit 31 (k::int) mod 4 = k mod 4"
proof -
  have e: "signed_take_bit 31 k = (k + 2147483648) mod 4294967296 - 2147483648"
    by (simp add: signed_take_bit_eq_take_bit_shift take_bit_eq_mod)
  show ?thesis unfolding e by (rule mod4_shift) simp_all
qed

lemma sint_diff_range:
  "- 2147483648 \<le> sint a - sint b \<Longrightarrow> sint a - sint b < 2147483648
   \<Longrightarrow> sint (a - b :: 32 word) = sint a - sint b"
  unfolding sint_diff by (rule stb_self)

lemma sint_sum_range:
  "- 2147483648 \<le> sint a + sint b \<Longrightarrow> sint a + sint b < 2147483648
   \<Longrightarrow> sint (a + b :: 32 word) = sint a + sint b"
  unfolding sint_sum by (rule stb_self)

lemma sint_neg_range:
  "- 2147483648 < sint a \<Longrightarrow> sint (- a :: 32 word) = - sint a"
  unfolding sint_neg using sint_bounds32[of a] by (intro stb_self) linarith+

lemma sint_diff_mod4: "sint (a - b :: 32 word) mod 4 = (sint a - sint b) mod 4"
  unfolding sint_diff by (rule stb_mod4)

lemma sint_sum_mod4: "sint (a + b :: 32 word) mod 4 = (sint a + sint b) mod 4"
  unfolding sint_sum by (rule stb_mod4)

lemma sint_uint32: "sint (w :: 32 word) = signed_take_bit 31 (uint w)"
  by (simp add: sint_uint)

lemma sint_small:
  assumes "uint (d :: 32 word) < 2147483648" shows "sint d = uint d"
proof -
  have "0 \<le> uint d" by simp
  then have "signed_take_bit 31 (uint d) = uint d"
    using assms by (intro stb_self) linarith+
  then show ?thesis by (simp only: sint_uint32)
qed

lemma uint_le: "(d :: 32 word) \<le> ts \<Longrightarrow> uint d \<le> uint ts"
  by (simp add: word_le_def)

lemma uint_pos: "(r :: 32 word) \<noteq> 0 \<Longrightarrow> 1 \<le> uint r"
  by (metis unat_gt_0 int_one_le_iff_zero_less uint_nat of_nat_0_less_iff)

lemma uint_pred: "(r :: 32 word) \<noteq> 0 \<Longrightarrow> uint (r - 1) = uint r - 1"
  unfolding uint_nat using unat_gt_0[of r] by (simp add: unat_minus_one)

lemma sint_4: "sint (4 :: 32 word) = 4" by simp
lemma sint_m2: "sint (- 2 :: 32 word) = - 2" by simp

lemma n_add4: 
  assumes "sint (n :: 32 word) mod 4 = 1" shows "sint (n + 4) mod 4 = 1"
proof -
  have "sint (n + 4) mod 4 = (sint n + 4) mod 4" by (simp only: sint_sum_mod4 sint_4)
  then show ?thesis using assms by simp
qed

lemma n_flip: 
  assumes "sint (n :: 32 word) mod 4 = 1" shows "sint (- 2 - n) mod 4 = 1"
proof -
  have "sint (- 2 - n) mod 4 = (- 2 - sint n) mod 4" by (simp only: sint_diff_mod4 sint_m2)
  also have "\<dots> = (- 2 - sint n mod 4) mod 4" by (simp only: mod_diff_right_eq)
  finally show ?thesis using assms by simp
qed

lemma n_flip_val: 
  assumes "sint (n :: 32 word) mod 4 = 1" shows "sint (- 2 - n) = - 2 - sint n"
proof -
  have "sint n \<noteq> 2147483647" "sint n \<noteq> - 2147483648" using assms by auto
  then have "- 2147483648 \<le> sint (- 2 :: 32 word) - sint n" "sint (- 2 :: 32 word) - sint n < 2147483648"
    using sint_bounds32[of n] by (simp_all only: sint_m2)
  then have "sint (- 2 - n) = sint (- 2 :: 32 word) - sint n" by (rule sint_diff_range)
  then show ?thesis by (simp only: sint_m2)
qed

lemma n_nonzero: "sint (n :: 32 word) mod 4 = 1 \<Longrightarrow> n \<noteq> 0"
  by auto

lemma unat_pred: "(r :: 32 word) \<noteq> 0 \<Longrightarrow> unat (r - 1) = unat r - 1"
  by (simp add: unat_minus_one)

lemma sint_half_neg:
  assumes "uint (ts :: 32 word) < 1073741824"
  shows "sint (- drop_bit 1 ts) = - (uint ts div 2)"
proof -
  have u: "uint (drop_bit 1 ts) = uint ts div 2"
    by (simp add: drop_bit_eq_div uint_div_distrib)
  have "0 \<le> uint ts" by simp
  then have "uint (drop_bit 1 ts) < 2147483648" unfolding u using assms by linarith
  then have h: "sint (drop_bit 1 ts) = uint ts div 2"
    unfolding u[symmetric] by (rule sint_small)
  have "- 2147483648 < sint (drop_bit 1 ts)" unfolding h using \<open>0 \<le> uint ts\<close> by linarith
  then show ?thesis unfolding h[symmetric] by (rule sint_neg_range)
qed

section \<open>The planner: auxiliary facts\<close>

lemma created_a: "dda_create example_cfg blank_dda move_a init_state = Inr (planned_a, state_a)"
  by code_simp

lemma if_gt_max: "(if (b::u32) > a then b else a) = max a b"
  by (auto simp: max_def)

lemma plan_deltas_total:
  "total_steps (plan_deltas dda t sp) =
     max (max (max (x_delta (plan_deltas dda t sp)) (y_delta (plan_deltas dda t sp)))
       (z_delta (plan_deltas dda t sp))) (e_delta (plan_deltas dda t sp))"
  by (simp add: plan_deltas_def Let_def if_gt_max)

lemma plan_deltas_fields:
  "endpoint (plan_deltas dda t sp) = t"
  "nullmove (plan_deltas dda t sp) = False"
  "live (plan_deltas dda t sp) = False"
  "x_delta (plan_deltas dda t sp) = labs (X t - X sp)"
  "y_delta (plan_deltas dda t sp) = labs (Y t - Y sp)"
  "z_delta (plan_deltas dda t sp) = labs (Z t - Z sp)"
  "e_delta (plan_deltas dda t sp) = labs (E t - E sp)"
  by (simp_all add: plan_deltas_def Let_def)

lemma clip_ramps_fields:
  "endpoint (clip_ramps d x) = endpoint d"
  "nullmove (clip_ramps d x) = nullmove d"
  "live (clip_ramps d x) = live d"
  "x_delta (clip_ramps d x) = x_delta d"
  "y_delta (clip_ramps d x) = y_delta d"
  "z_delta (clip_ramps d x) = z_delta d"
  "e_delta (clip_ramps d x) = e_delta d"
  "total_steps (clip_ramps d x) = total_steps d"
  "x_direction (clip_ramps d x) = x_direction d"
  "y_direction (clip_ramps d x) = y_direction d"
  "z_direction (clip_ramps d x) = z_direction d"
  "e_direction (clip_ramps d x) = e_direction d"
  "c0 (clip_ramps d x) = c0 d"
  "c_min (clip_ramps d x) = c_min d"
  by (simp_all add: clip_ramps_def Let_def)

lemma plan_timing_shape:
  assumes "plan_timing cf d1 t = Inr d2"
  shows "\<exists>c_limit c0v x.
           plan_c_limit cf d1 t (move_distance cf d1) = Inr c_limit
         \<and> plan_c0 cf d1 (move_distance cf d1) = Inr c0v
         \<and> natural_rampup cf d1 c_limit (move_distance cf d1) = Inr x
         \<and> d2 = clip_ramps (d1\<lparr>c0 := c0v, c_min := push_bit 8 c_limit\<rparr>) x"
  using assms by (auto simp: plan_timing_def Let_def split: sum.splits)

lemma dda_create_cases:
  assumes "dda_create cf dda t s = Inr (d, s')"
  obtains (null) "total_steps (plan_deltas dda t (startpoint s)) = 0"
      "d = (plan_deltas dda t (startpoint s))\<lparr>nullmove := True\<rparr>"
      "s' = s\<lparr>startpoint := next_startpoint cf t\<rparr>"
  | (move) "total_steps (plan_deltas dda t (startpoint s)) \<noteq> 0"
      "plan_timing cf (plan_deltas dda t (startpoint s)) t = Inr d"
      "s' = s\<lparr>steptimeout := 0,
              hal := (hal s)\<lparr>power := True, x_enabled := True, y_enabled := True,
                             e_enabled := True\<rparr>,
              startpoint := next_startpoint cf t\<rparr>"
  using assms by (auto simp: dda_create_def Let_def split: if_splits sum.splits)

lemma dda_create_deltas:
  assumes "dda_create cf dda t s = Inr (d, s')"
  shows "x_delta d = x_delta (plan_deltas dda t (startpoint s))"
    and "y_delta d = y_delta (plan_deltas dda t (startpoint s))"
    and "z_delta d = z_delta (plan_deltas dda t (startpoint s))"
    and "e_delta d = e_delta (plan_deltas dda t (startpoint s))"
    and "total_steps d = total_steps (plan_deltas dda t (startpoint s))"
    and "endpoint d = t"
    and "nullmove d \<longleftrightarrow> total_steps d = 0"
    and "\<not> live d"
  using assms
  by (cases rule: dda_create_cases;
      auto dest!: plan_timing_shape simp: clip_ramps_fields plan_deltas_fields)+

lemma max_steps:
  assumes "dda_create cf dda t s = Inr (d, s')"
  shows "total_steps d = max (max (max (x_delta d) (y_delta d)) (z_delta d)) (e_delta d)"
  using dda_create_deltas(1-5)[OF assms] plan_deltas_total[of dda t "startpoint s"] by simp

lemma word_half_double: "2 * ((ts::u32) div 2) \<le> ts"
proof -
  have a: "unat (ts div 2) = unat ts div 2" by (simp add: unat_div)
  have "unat ts < 2 ^ 32" using unsigned_less[of ts] by simp
  then have "2 * (unat ts div 2) < 2 ^ 32" by simp
  then have "unat (2 * (ts div 2)) = 2 * (unat ts div 2)"
    by (simp add: unat_word_ariths a)
  then show ?thesis by (simp add: word_le_nat_alt)
qed

lemma unat_double: "unat (x::u32) < 2 ^ 31 \<Longrightarrow> unat (2 * x) = 2 * unat x"
  by (simp add: unat_word_ariths)

lemma unat_half: "unat ((ts::u32) div 2) = unat ts div 2"
  by (simp add: unat_div)

lemma unat_minus_le: "(b::u32) \<le> a \<Longrightarrow> unat (a - b) = unat a - unat b"
  by (simp add: unat_sub)

lemma clip_ramps_word:
  "2 * rampup_steps (clip_ramps d x) \<le> total_steps d"
  "rampdown_steps (clip_ramps d x) = total_steps d - rampup_steps (clip_ramps d x)"
  "rampup_steps (clip_ramps d x) = (if 2 * x > total_steps d then total_steps d div 2 else x)"
  by (auto simp: clip_ramps_def Let_def word_half_double not_less)

lemma clip_ramps_nat:
  assumes "unat x < 2 ^ 31"
  shows "2 * unat (rampup_steps (clip_ramps d x)) \<le> unat (total_steps d)"
    and "unat (rampdown_steps (clip_ramps d x))
           = unat (total_steps d) - unat (rampup_steps (clip_ramps d x))"
proof -
  let ?ru = "rampup_steps (clip_ramps d x)"
  show a: "2 * unat ?ru \<le> unat (total_steps d)"
  proof (cases "2 * x > total_steps d")
    case True
    then show ?thesis by (simp add: clip_ramps_def Let_def unat_half)
  next
    case False
    then have "unat (2 * x) \<le> unat (total_steps d)" by (simp add: word_le_nat_alt not_less)
    then show ?thesis using False unat_double[OF assms] by (simp add: clip_ramps_def Let_def)
  qed
  then have "unat ?ru \<le> unat (total_steps d)" by simp
  then have "?ru \<le> total_steps d" by (simp add: word_le_nat_alt)
  then show "unat (rampdown_steps (clip_ramps d x)) = unat (total_steps d) - unat ?ru"
    using unat_minus_le[of ?ru "total_steps d"] by (simp add: clip_ramps_word(2))
qed

lemma ramp_divisor_cong: "total_steps d = total_steps d' \<Longrightarrow> ramp_divisor cf d = ramp_divisor cf d'"
  by (simp add: ramp_divisor_def)

lemma natural_rampup_cong:
  "total_steps d = total_steps d' \<Longrightarrow> natural_rampup cf d = natural_rampup cf d'"
  by (intro ext) (simp add: natural_rampup_def ramp_divisor_cong[of d d'] split: sum.splits)

lemma move_distance_cong:
  "x_delta d = x_delta d' \<Longrightarrow> y_delta d = y_delta d' \<Longrightarrow> z_delta d = z_delta d'
   \<Longrightarrow> e_delta d = e_delta d' \<Longrightarrow> move_distance cf d = move_distance cf d'"
  by (simp add: move_distance_def planar_distance_def)

lemma e_feed_b: "STEPS_TO_UM_E example_cfg (e_delta (plan_deltas blank_dda move_b origin)) = 1002"
  by code_simp

lemma planar_b: "planar_distance example_cfg (plan_deltas blank_dda move_b origin) = 8016"
  by code_simp

lemma distance_b: "move_distance example_cfg (plan_deltas blank_dda move_b origin) = 8016"
  by code_simp

lemma fold_b: "approx_distance_2d example_cfg 8016 1002 = 8517"
  by code_simp

text \<open>
  The test of line 155 read as numbers: the extruder travel is folded in when the planar
  distance is less than eight times the extruder distance.
\<close>

lemma fold_threshold:
  assumes "unat (STEPS_TO_UM_E cf (e_delta d)) < 2 ^ 29"
  shows "move_distance cf d =
     (if unat (planar_distance cf d) < 8 * unat (STEPS_TO_UM_E cf (e_delta d))
      then approx_distance_2d cf (planar_distance cf d) (STEPS_TO_UM_E cf (e_delta d))
      else planar_distance cf d)"
proof -
  let ?e = "STEPS_TO_UM_E cf (e_delta d)"
  have "unat (push_bit 3 ?e) = 8 * unat ?e"
    using assms by (simp add: push_bit_eq_mult unat_word_ariths)
  then show ?thesis
    by (simp add: move_distance_def fold_e_feed_def word_less_nat_alt)
qed

text \<open>The ramp length before clipping, and the clipping read as numbers.\<close>

lemma created_c: "dda_create example_cfg blank_dda move_c init_state = Inr (planned_c, state_c)"
  by code_simp

lemma planned_rampup_a:
  "planned_rampup example_cfg (plan_deltas blank_dda move_a (startpoint init_state)) move_a = Inr 588"
  by code_simp

lemma planned_rampup_c:
  "planned_rampup example_cfg (plan_deltas blank_dda move_c (startpoint init_state)) move_c
     = Inr 2641161728"
  by code_simp

lemma plan_timing_ramp:
  assumes "plan_timing cf d1 t = Inr d2"
  shows "\<exists>x. planned_rampup cf d1 t = Inr x
           \<and> rampup_steps d2 = rampup_steps (clip_ramps d1 x)
           \<and> rampdown_steps d2 = rampdown_steps (clip_ramps d1 x)
           \<and> total_steps d2 = total_steps d1"
  using assms
  by (auto simp: plan_timing_def planned_rampup_def clip_ramps_def Let_def split: sum.splits)

lemma clip_ramps_exact:
  "2 * unat (rampup_steps (clip_ramps d x)) \<le> unat (total_steps d)
     \<longleftrightarrow> unat x < 2 ^ 31 \<or> total_steps d < 2 * x"
proof (cases "total_steps d < 2 * x")
  case True
  then show ?thesis by (simp add: clip_ramps_def Let_def unat_half)
next
  case False
  show ?thesis
  proof (cases "unat x < 2 ^ 31")
    case True
    then show ?thesis using clip_ramps_nat(1)[OF True, of d] by simp
  next
    case b: False
    have "unat (total_steps d) < 2 ^ 32" using unsigned_less[of "total_steps d"] by simp
    then have "unat (total_steps d) < 2 * unat x" using b by simp
    then show ?thesis using False b by (simp add: clip_ramps_def Let_def)
  qed
qed

lemma clip_ramps_test:
  assumes "unat x < 2 ^ 31"
  shows "total_steps d < 2 * x \<longleftrightarrow> unat (total_steps d) < 2 * unat x"
  using unat_double[OF assms] by (simp add: word_less_nat_alt)

section \<open>The step generator: auxiliary facts\<close>

lemma bresenham_zero: "bresenham c 0 d ts = (c, 0, False)"
  by (simp add: bresenham_def)

lemma bresenham_steps:
  "unat (fst (snd (bresenham c r d ts))) + (if snd (snd (bresenham c r d ts)) then 1 else 0)
     = unat r"
proof (cases "r = 0")
  case True
  then show ?thesis by (simp add: bresenham_zero)
next
  case False
  then have "0 < unat r" by (simp add: unat_gt_0)
  then show ?thesis using False by (simp add: bresenham_def unat_pred)
qed



lemma axis_ok_start:
  assumes "uint ts < 1073741824" and "d \<le> ts"
  shows "axis_ok 0 ts d (- drop_bit 1 ts) d"
proof (cases "d = 0")
  case True
  then show ?thesis by (simp add: axis_ok_def)
next
  case False
  then have "1 \<le> uint d" by (rule uint_pos)
  moreover have "uint d \<le> uint ts" using assms(2) by (rule uint_le)
  ultimately have "- (uint ts div 2) < uint ts" by linarith
  then show ?thesis
    unfolding axis_ok_def sint_half_neg[OF assms(1)] by simp
qed

lemma axis_ok_step:
  assumes ts: "uint ts < 1073741824" and le: "d \<le> ts" and ok: "axis_ok k ts d c r"
  shows "axis_ok (Suc k) ts d (fst (bresenham c r d ts)) (fst (snd (bresenham c r d ts)))"
proof (cases "r = 0")
  case True
  then show ?thesis by (simp add: bresenham_zero axis_ok_def)
next
  case False
  define T where "T = uint ts"
  define D where "D = uint d"
  define R where "R = uint r"
  have DT: "D \<le> T" "0 \<le> D" "T < 1073741824"
    using uint_le[OF le] ts by (simp_all add: D_def T_def)
  have R1: "1 \<le> R" using uint_pos[OF False] by (simp add: R_def)
  from ok False have f: "sint c = - (T div 2) - int k * D + (D - R) * T"
    and lo: "- (T div 2) \<le> sint c" and hi: "sint c < T"
    by (simp_all add: axis_ok_def T_def D_def R_def)
  have sd: "sint d = D" unfolding D_def
    by (rule sint_small) (use DT in \<open>unfold D_def T_def, linarith\<close>)
  have st: "sint ts = T" unfolding T_def
    by (rule sint_small) (use ts in linarith)
  have cd: "sint (c - d) = sint c - D"
    unfolding sd[symmetric] by (rule sint_diff_range) (use lo hi DT sd in linarith)+
  show ?thesis
  proof (cases "sint c - D < 0")
    case True
    then have neg: "c - d <s 0" by (simp add: word_sless_alt cd)
    have b: "bresenham c r d ts = (c - d + ts, r - 1, True)"
      using False neg by (simp add: bresenham_def)
    have v: "sint (c - d + ts) = sint c - D + T"
      unfolding cd[symmetric] st[symmetric]
      by (rule sint_sum_range) (use lo hi DT cd st True in linarith)+
    have r': "uint (r - 1) = R - 1"
      using uint_pred[OF False] by (simp add: R_def)
    have "sint c - D + T = - (T div 2) - int (Suc k) * D + (D - (R - 1)) * T"
      unfolding f by (simp add: algebra_simps)
    moreover have "- (T div 2) \<le> sint c - D + T" using lo DT by linarith
    moreover have "sint c - D + T < T" using True by linarith
    ultimately have "axis_ok (Suc k) ts d (c - d + ts) (r - 1)"
      unfolding axis_ok_def v r' T_def[symmetric] D_def[symmetric] by blast
    then show ?thesis by (simp add: b)
  next
    case pos: False
    then have "\<not> c - d <s 0" by (simp add: word_sless_alt cd)
    then have b: "bresenham c r d ts = (c - d, r, False)"
      using False by (simp add: bresenham_def)
    have "sint c - D = - (T div 2) - int (Suc k) * D + (D - R) * T"
      unfolding f by (simp add: algebra_simps)
    moreover have "- (T div 2) \<le> sint c - D" using pos DT by linarith
    moreover have "sint c - D < T" using hi DT by linarith
    ultimately have "axis_ok (Suc k) ts d (c - d) r"
      unfolding axis_ok_def cd T_def[symmetric] D_def[symmetric] R_def[symmetric] by blast
    then show ?thesis by (simp add: b)
  qed
qed

lemma axis_ok_end:
  assumes "axis_ok k ts d c r" and "int k = uint ts" and "0 < k"
  shows "r = 0"
proof (rule ccontr)
  assume nz: "r \<noteq> 0"
  define T where "T = uint ts"
  define D where "D = uint d"
  define R where "R = uint r"
  have R1: "1 \<le> R" using uint_pos[OF nz] by (simp add: R_def)
  have T1: "1 \<le> T" using assms(2,3) by (simp add: T_def)
  from assms(1) nz have f: "sint c = - (T div 2) - int k * D + (D - R) * T"
    and lo: "- (T div 2) \<le> sint c"
    by (simp_all add: axis_ok_def T_def D_def R_def)
  have "sint c = - (T div 2) - R * T"
    unfolding f using assms(2) by (simp add: algebra_simps T_def)
  then have "R * T \<le> 0" using lo by linarith
  moreover have "1 * 1 \<le> R * T" using R1 T1 by (intro mult_mono) simp_all
  ultimately show False by simp
qed

lemma lead_ok_start:
  assumes "uint ts < 1073741824"
  shows "lead_ok 0 ts (- drop_bit 1 ts) ts"
  unfolding lead_ok_def sint_half_neg[OF assms] by simp

lemma lead_ok_step:
  assumes ts: "uint ts < 1073741824" and ok: "lead_ok k ts c r" and k: "int k < uint ts"
  shows "bresenham c r ts ts = (c, r - 1, True) \<and> lead_ok (Suc k) ts c (r - 1)"
proof -
  define T where "T = uint ts"
  have c: "sint c = - (T div 2)" and r: "uint r + int k = T"
    using ok by (simp_all add: lead_ok_def T_def)
  have T: "T < 1073741824" "int k < T" using ts k by (simp_all add: T_def)
  have nz: "r \<noteq> 0" using r T by auto
  have st: "sint ts = T" unfolding T_def by (rule sint_small) (use ts in linarith)
  have "sint (c - ts) = sint c - sint ts"
    by (rule sint_diff_range) (use c st T in linarith)+
  then have "sint (c - ts) < 0" using c st T by linarith
  then have neg: "c - ts <s 0" by (simp add: word_sless_alt)
  have b: "bresenham c r ts ts = (c, r - 1, True)"
    using nz neg by (simp add: bresenham_def)
  have "uint (r - 1) + int (Suc k) = T"
    using r uint_pred[OF nz] by simp
  then show ?thesis using b c by (simp add: lead_ok_def T_def)
qed

section \<open>One invocation of the step generator\<close>

lemma step_axes_fields:
  "x_counter (step_axes dda ms) = fst (bresenham (x_counter ms) (x_steps ms) (x_delta dda) (total_steps dda))"
  "y_counter (step_axes dda ms) = fst (bresenham (y_counter ms) (y_steps ms) (y_delta dda) (total_steps dda))"
  "z_counter (step_axes dda ms) = fst (bresenham (z_counter ms) (z_steps ms) (z_delta dda) (total_steps dda))"
  "e_counter (step_axes dda ms) = fst (bresenham (e_counter ms) (e_steps ms) (e_delta dda) (total_steps dda))"
  "x_steps (step_axes dda ms) = fst (snd (bresenham (x_counter ms) (x_steps ms) (x_delta dda) (total_steps dda)))"
  "y_steps (step_axes dda ms) = fst (snd (bresenham (y_counter ms) (y_steps ms) (y_delta dda) (total_steps dda)))"
  "z_steps (step_axes dda ms) = fst (snd (bresenham (z_counter ms) (z_steps ms) (z_delta dda) (total_steps dda)))"
  "e_steps (step_axes dda ms) = fst (snd (bresenham (e_counter ms) (e_steps ms) (e_delta dda) (total_steps dda)))"
  "ms_n (step_axes dda ms) = ms_n ms"
  "ms_c (step_axes dda ms) = ms_c ms"
  "step_no (step_axes dda ms) = step_no ms"
  by (simp_all add: step_axes_def Let_def)

lemma ramp_update_fields:
  assumes "ramp_update dda ms = Inr ms2"
  shows "x_counter ms2 = x_counter ms" and "y_counter ms2 = y_counter ms"
    and "z_counter ms2 = z_counter ms" and "e_counter ms2 = e_counter ms"
    and "x_steps ms2 = x_steps ms" and "y_steps ms2 = y_steps ms"
    and "z_steps ms2 = z_steps ms" and "e_steps ms2 = e_steps ms"
    and "step_no ms2 = step_no ms + 1"
  using assms by (auto simp: ramp_update_def Let_def split: if_splits)

lemma force_n_ok:
  assumes "n_ok ms"
  shows "sint (force_n dda ms) mod 4 = 1"
  using assms n_flip[of "ms_n ms"] by (simp add: force_n_def n_ok_def)

lemma ramp_update_ok:
  assumes "n_ok ms"
  shows "\<exists>ms2. ramp_update dda ms = Inr ms2 \<and> n_ok ms2"
proof (cases "recalc_speed dda ms")
  case True
  have a: "sint (force_n dda ms + 4) mod 4 = 1"
    by (rule n_add4) (rule force_n_ok[OF assms])
  then have "force_n dda ms + 4 \<noteq> 0" by (rule n_nonzero)
  then show ?thesis using True a by (simp add: ramp_update_def Let_def n_ok_def)
next
  case False
  then show ?thesis using assms by (simp add: ramp_update_def n_ok_def)
qed

lemma step_axes_n_ok: "n_ok (step_axes dda ms) = n_ok ms"
  by (simp add: n_ok_def step_axes_fields)

text \<open>What one invocation does, given that the ramp update succeeds.\<close>

lemma dda_step_unfold:
  assumes "ramp_update dda (step_axes dda (move_state s)) = Inr ms2"
  shows "dda_step cf dda s =
     Inr (if did_step dda (move_state s) then
            (dda, s\<lparr>steptimeout := 0, move_state := ms2,
                    hal := setTimer (timer_value dda ms2)
                             (step_pulses dda (move_state s) (hal s))\<rparr>)
          else if finished dda (move_state s) ms2 then
            (dda\<lparr>live := False\<rparr>,
             s\<lparr>current_position := finish_position cf dda (current_position s),
               move_state := ms2,
               hal := setTimer (timer_value dda ms2)
                        ((step_pulses dda (move_state s) (hal s))\<lparr>z_enabled := False\<rparr>)\<rparr>)
          else
            (dda, s\<lparr>move_state := ms2,
                    hal := setTimer (timer_value dda ms2)
                             (step_pulses dda (move_state s) (hal s))\<rparr>))"
  using assms by (simp add: dda_step_def Let_def)

lemma dda_step_ramp:
  assumes "dda_step cf dda s = Inr (d', s')"
  shows "ramp_update dda (step_axes dda (move_state s)) = Inr (move_state s')"
proof (cases "ramp_update dda (step_axes dda (move_state s))")
  case (Inl e)
  then show ?thesis using assms by (simp add: dda_step_def Let_def)
next
  case (Inr ms2)
  from assms[unfolded dda_step_unfold[OF Inr]] have "move_state s' = ms2"
    by (auto split: if_splits)
  then show ?thesis using Inr by simp
qed

lemma dda_step_result:
  assumes "dda_step cf dda s = Inr (d', s')"
  shows "ramp_update dda (step_axes dda (move_state s)) = Inr (move_state s')"
    and "d' = (if finished dda (move_state s) (move_state s') then dda\<lparr>live := False\<rparr> else dda)"
    and "current_position s' =
           (if finished dda (move_state s) (move_state s')
            then finish_position cf dda (current_position s) else current_position s)"
    and "startpoint s' = startpoint s"
    and "timer (hal s') = timer (hal s) @ [timer_value dda (move_state s')]"
    and "x_pulses (hal s') = x_pulses (hal s) + (if x_stepped dda (move_state s) then 1 else 0)"
    and "y_pulses (hal s') = y_pulses (hal s) + (if y_stepped dda (move_state s) then 1 else 0)"
    and "z_pulses (hal s') = z_pulses (hal s) + (if z_stepped dda (move_state s) then 1 else 0)"
    and "e_pulses (hal s') = e_pulses (hal s) + (if e_stepped dda (move_state s) then 1 else 0)"
proof -
  let ?ms = "move_state s"
  show "ramp_update dda (step_axes dda ?ms) = Inr (move_state s')"
    by (rule dda_step_ramp[OF assms])
  then obtain ms2 where r: "ramp_update dda (step_axes dda ?ms) = Inr ms2" by blast
  note u = assms[unfolded dda_step_unfold[OF r]]
  consider (stepped) "did_step dda ?ms"
    | (fin) "\<not> did_step dda ?ms" "finished dda ?ms ms2"
    | (idle) "\<not> did_step dda ?ms" "\<not> finished dda ?ms ms2"
    by blast
  then have "d' = (if finished dda ?ms (move_state s') then dda\<lparr>live := False\<rparr> else dda)
      \<and> current_position s' =
           (if finished dda ?ms (move_state s')
            then finish_position cf dda (current_position s) else current_position s)
      \<and> startpoint s' = startpoint s
      \<and> timer (hal s') = timer (hal s) @ [timer_value dda (move_state s')]
      \<and> x_pulses (hal s') = x_pulses (hal s) + (if x_stepped dda ?ms then 1 else 0)
      \<and> y_pulses (hal s') = y_pulses (hal s) + (if y_stepped dda ?ms then 1 else 0)
      \<and> z_pulses (hal s') = z_pulses (hal s) + (if z_stepped dda ?ms then 1 else 0)
      \<and> e_pulses (hal s') = e_pulses (hal s) + (if e_stepped dda ?ms then 1 else 0)"
  proof cases
    case stepped
    from u stepped have d: "d' = dda" and
      s: "s' = s\<lparr>steptimeout := 0, move_state := ms2,
               hal := setTimer (timer_value dda ms2) (step_pulses dda ?ms (hal s))\<rparr>"
      by auto
    have nf: "\<not> finished dda ?ms ms2" using stepped by (simp add: finished_def)
    show ?thesis unfolding d s using nf by (simp add: setTimer_def step_pulses_def)
  next
    case fin
    from u fin have d: "d' = dda\<lparr>live := False\<rparr>" and
      s: "s' = s\<lparr>current_position := finish_position cf dda (current_position s),
               move_state := ms2,
               hal := setTimer (timer_value dda ms2)
                        ((step_pulses dda ?ms (hal s))\<lparr>z_enabled := False\<rparr>)\<rparr>"
      by auto
    show ?thesis unfolding d s using fin(2) by (simp add: setTimer_def step_pulses_def)
  next
    case idle
    from u idle have d: "d' = dda" and
      s: "s' = s\<lparr>move_state := ms2,
               hal := setTimer (timer_value dda ms2) (step_pulses dda ?ms (hal s))\<rparr>"
      by auto
    show ?thesis unfolding d s using idle(2) by (simp add: setTimer_def step_pulses_def)
  qed
  then show "d' = (if finished dda ?ms (move_state s') then dda\<lparr>live := False\<rparr> else dda)"
    and "current_position s' =
           (if finished dda ?ms (move_state s')
            then finish_position cf dda (current_position s) else current_position s)"
    and "startpoint s' = startpoint s"
    and "timer (hal s') = timer (hal s) @ [timer_value dda (move_state s')]"
    and "x_pulses (hal s') = x_pulses (hal s) + (if x_stepped dda ?ms then 1 else 0)"
    and "y_pulses (hal s') = y_pulses (hal s) + (if y_stepped dda ?ms then 1 else 0)"
    and "z_pulses (hal s') = z_pulses (hal s) + (if z_stepped dda ?ms then 1 else 0)"
    and "e_pulses (hal s') = e_pulses (hal s) + (if e_stepped dda ?ms then 1 else 0)"
    by blast+
qed

lemma dda_step_runs:
  assumes "n_ok (move_state s)"
  shows "\<exists>d' s'. dda_step cf dda s = Inr (d', s') \<and> n_ok (move_state s')"
proof -
  from ramp_update_ok[of "step_axes dda (move_state s)" dda] assms
  obtain ms2 where "ramp_update dda (step_axes dda (move_state s)) = Inr ms2" "n_ok ms2"
    by (auto simp: step_axes_n_ok)
  then show ?thesis by (simp add: dda_step_def Let_def)
qed

lemma dda_step_steps:
  assumes "dda_step cf dda s = Inr (d', s')"
  shows "x_steps (move_state s') = x_steps (step_axes dda (move_state s))"
    and "y_steps (move_state s') = y_steps (step_axes dda (move_state s))"
    and "z_steps (move_state s') = z_steps (step_axes dda (move_state s))"
    and "e_steps (move_state s') = e_steps (step_axes dda (move_state s))"
    and "x_counter (move_state s') = x_counter (step_axes dda (move_state s))"
    and "y_counter (move_state s') = y_counter (step_axes dda (move_state s))"
    and "z_counter (move_state s') = z_counter (step_axes dda (move_state s))"
    and "e_counter (move_state s') = e_counter (step_axes dda (move_state s))"
  using ramp_update_fields[OF dda_step_result(1)[OF assms]] by simp_all

lemma dda_step_dda:
  assumes "dda_step cf dda s = Inr (d', s')"
  shows "d' = dda\<lparr>live := live d'\<rparr>"
  using dda_step_result(2)[OF assms] by (cases "finished dda (move_state s) (move_state s')") simp_all

lemma dda_step_pulses:
  assumes "dda_step cf dda s = Inr (d', s')"
  shows "x_pulses (hal s') + unat (x_steps (move_state s'))
           = x_pulses (hal s) + unat (x_steps (move_state s))"
    and "y_pulses (hal s') + unat (y_steps (move_state s'))
           = y_pulses (hal s) + unat (y_steps (move_state s))"
    and "z_pulses (hal s') + unat (z_steps (move_state s'))
           = z_pulses (hal s) + unat (z_steps (move_state s))"
    and "e_pulses (hal s') + unat (e_steps (move_state s'))
           = e_pulses (hal s) + unat (e_steps (move_state s))"
  using bresenham_steps[of "x_counter (move_state s)" "x_steps (move_state s)" "x_delta dda" "total_steps dda"]
        bresenham_steps[of "y_counter (move_state s)" "y_steps (move_state s)" "y_delta dda" "total_steps dda"]
        bresenham_steps[of "z_counter (move_state s)" "z_steps (move_state s)" "z_delta dda" "total_steps dda"]
        bresenham_steps[of "e_counter (move_state s)" "e_steps (move_state s)" "e_delta dda" "total_steps dda"]
  by (simp_all add: dda_step_steps[OF assms] dda_step_result[OF assms] step_axes_fields
        x_stepped_def y_stepped_def z_stepped_def e_stepped_def)


lemma done_quiet:
  assumes "steps_done ms"
  shows "\<not> did_step dda ms" and "steps_done (step_axes dda ms)"
  using assms
  by (simp_all add: steps_done_def did_step_def x_stepped_def y_stepped_def z_stepped_def
        e_stepped_def step_axes_fields bresenham_zero)

section \<open>Runs of the step generator\<close>

lemma exec_append:
  "exec cf (pre @ post) dda s =
     (case exec cf pre dda s of Inl e \<Rightarrow> Inl e | Inr r \<Rightarrow> exec cf post (fst r) (snd r))"
proof (induction pre arbitrary: dda s)
  case Nil
  then show ?case by simp
next
  case (Cons ev pre)
  then show ?case by (cases ev) (simp_all split: sum.splits)
qed

lemma update_position_fields:
  "move_state (update_position cf dda s) = move_state s"
  "hal (update_position cf dda s) = hal s"
  "startpoint (update_position cf dda s) = startpoint s"
  "F (current_position (update_position cf dda s)) = F (current_position s)"
  by (simp_all add: update_position_def Let_def)

lemma update_position_idle: "\<not> live dda \<Longrightarrow> update_position cf dda s = s"
  by (simp add: update_position_def)

lemma exec_dda:
  assumes "exec cf evs dda s = Inr (d', s')"
  shows "d' = dda\<lparr>live := live d'\<rparr>"
  using assms
proof (induction evs arbitrary: dda s)
  case Nil
  then show ?case by simp
next
  case (Cons ev evs)
  show ?case
  proof (cases ev)
    case Tick
    with Cons.prems obtain d1 s1 where st: "dda_step cf dda s = Inr (d1, s1)"
      and ex: "exec cf evs d1 s1 = Inr (d', s')"
      by (auto split: sum.splits)
    from Cons.IH[OF ex] dda_step_dda[OF st] show ?thesis
      by (metis DDA.surjective DDA.update_convs(3))
  next
    case Refresh
    with Cons.prems Cons.IH show ?thesis by simp
  qed
qed

lemma exec_pulses:
  assumes "exec cf evs dda s = Inr (d', s')"
  shows "x_pulses (hal s') + unat (x_steps (move_state s'))
           = x_pulses (hal s) + unat (x_steps (move_state s))
       \<and> y_pulses (hal s') + unat (y_steps (move_state s'))
           = y_pulses (hal s) + unat (y_steps (move_state s))
       \<and> z_pulses (hal s') + unat (z_steps (move_state s'))
           = z_pulses (hal s) + unat (z_steps (move_state s))
       \<and> e_pulses (hal s') + unat (e_steps (move_state s'))
           = e_pulses (hal s) + unat (e_steps (move_state s))"
  using assms
proof (induction evs arbitrary: dda s)
  case Nil
  then show ?case by simp
next
  case (Cons ev evs)
  show ?case
  proof (cases ev)
    case Tick
    with Cons.prems obtain d1 s1 where st: "dda_step cf dda s = Inr (d1, s1)"
      and ex: "exec cf evs d1 s1 = Inr (d', s')"
      by (auto split: sum.splits)
    from Cons.IH[OF ex] dda_step_pulses[OF st] show ?thesis by simp
  next
    case Refresh
    with Cons.prems have "exec cf evs dda (update_position cf dda s) = Inr (d', s')" by simp
    from Cons.IH[OF this] show ?thesis by (simp add: update_position_fields)
  qed
qed

lemma dda_step_settles:
  assumes st: "dda_step cf dda s = Inr (d', s')" and inv: "live dda \<or> settled cf dda s"
  shows "live d' \<or> settled cf d' s'"
proof (cases "finished dda (move_state s) (move_state s')")
  case True
  then have "steps_done (move_state s')" by (simp add: finished_def steps_done_def)
  then show ?thesis
    using True dda_step_result(2,3)[OF st]
    by (simp add: settled_def finish_position_def)
next
  case False
  then have d: "d' = dda" and cp: "current_position s' = current_position s"
    using dda_step_result(2,3)[OF st] by simp_all
  show ?thesis
  proof (cases "live dda")
    case True
    then show ?thesis by (simp add: d)
  next
    case dead: False
    then have "steps_done (move_state s)" using inv by (simp add: settled_def)
    from done_quiet[OF this, of dda]
    have "finished dda (move_state s) (move_state s')"
      by (simp add: finished_def steps_done_def dda_step_steps[OF st])
    then show ?thesis using False by simp
  qed
qed

lemma exec_settles:
  assumes "exec cf evs dda s = Inr (d', s')" and "live dda \<or> settled cf dda s"
  shows "live d' \<or> settled cf d' s'"
  using assms
proof (induction evs arbitrary: dda s)
  case Nil
  then show ?case by simp
next
  case (Cons ev evs)
  show ?case
  proof (cases ev)
    case Tick
    with Cons.prems obtain d1 s1 where st: "dda_step cf dda s = Inr (d1, s1)"
      and ex: "exec cf evs d1 s1 = Inr (d', s')"
      by (auto split: sum.splits)
    from Cons.IH[OF ex dda_step_settles[OF st Cons.prems(2)]] show ?thesis .
  next
    case Refresh
    with Cons.prems have ex: "exec cf evs dda (update_position cf dda s) = Inr (d', s')" by simp
    have "live dda \<or> settled cf dda (update_position cf dda s)"
      using Cons.prems(2) by (cases "live dda") (simp_all add: update_position_idle)
    from Cons.IH[OF ex this] show ?thesis .
  qed
qed

lemma dda_start_fields:
  assumes "\<not> nullmove dda"
  shows "fst (dda_start dda s) = dda\<lparr>live := True\<rparr>"
    and "x_steps (move_state (snd (dda_start dda s))) = x_delta dda"
    and "y_steps (move_state (snd (dda_start dda s))) = y_delta dda"
    and "z_steps (move_state (snd (dda_start dda s))) = z_delta dda"
    and "e_steps (move_state (snd (dda_start dda s))) = e_delta dda"
    and "x_counter (move_state (snd (dda_start dda s))) = - drop_bit 1 (total_steps dda)"
    and "y_counter (move_state (snd (dda_start dda s))) = - drop_bit 1 (total_steps dda)"
    and "z_counter (move_state (snd (dda_start dda s))) = - drop_bit 1 (total_steps dda)"
    and "e_counter (move_state (snd (dda_start dda s))) = - drop_bit 1 (total_steps dda)"
    and "ms_n (move_state (snd (dda_start dda s))) = ms_n (move_state s)"
    and "ms_c (move_state (snd (dda_start dda s))) = c0 dda"
    and "step_no (move_state (snd (dda_start dda s))) = 0"
    and "x_pulses (hal (snd (dda_start dda s))) = x_pulses (hal s)"
    and "y_pulses (hal (snd (dda_start dda s))) = y_pulses (hal s)"
    and "z_pulses (hal (snd (dda_start dda s))) = z_pulses (hal s)"
    and "e_pulses (hal (snd (dda_start dda s))) = e_pulses (hal s)"
    and "current_position (snd (dda_start dda s)) = current_position s"
    and "timer (hal (snd (dda_start dda s)))
           = timer (hal s) @ [timer_value dda (move_state (snd (dda_start dda s)))]"
  using assms by (simp_all add: dda_start_def Let_def setTimer_def timer_value_def)

lemma exec_pulses_mono:
  assumes "exec cf evs dda s = Inr (d', s')"
  shows "x_pulses (hal s) \<le> x_pulses (hal s') \<and> y_pulses (hal s) \<le> y_pulses (hal s')
       \<and> z_pulses (hal s) \<le> z_pulses (hal s') \<and> e_pulses (hal s) \<le> e_pulses (hal s')"
  using assms
proof (induction evs arbitrary: dda s)
  case Nil
  then show ?case by simp
next
  case (Cons ev evs)
  show ?case
  proof (cases ev)
    case Tick
    with Cons.prems obtain d1 s1 where st: "dda_step cf dda s = Inr (d1, s1)"
      and ex: "exec cf evs d1 s1 = Inr (d', s')"
      by (auto split: sum.splits)
    from Cons.IH[OF ex] dda_step_result(6-9)[OF st] show ?thesis by simp
  next
    case Refresh
    with Cons.prems have "exec cf evs dda (update_position cf dda s) = Inr (d', s')" by simp
    from Cons.IH[OF this] show ?thesis by (simp add: update_position_fields)
  qed
qed

lemma exec_idle:
  assumes "exec cf evs dda s = Inr (d', s')" and "steps_done (move_state s)"
  shows "x_pulses (hal s') = x_pulses (hal s) \<and> y_pulses (hal s') = y_pulses (hal s)
       \<and> z_pulses (hal s') = z_pulses (hal s) \<and> e_pulses (hal s') = e_pulses (hal s)"
  using exec_pulses[OF assms(1)] exec_pulses_mono[OF assms(1)] assms(2)
  by (simp add: steps_done_def)

text \<open>
  With \<open>n\<close> congruent to 1 modulo 4 the step generator never divides by zero: every run
  returns.
\<close>

lemma exec_runs:
  assumes "n_ok (move_state s)"
  shows "\<exists>d' s'. exec cf evs dda s = Inr (d', s') \<and> n_ok (move_state s')"
  using assms
proof (induction evs arbitrary: dda s)
  case Nil
  then show ?case by simp
next
  case (Cons ev evs)
  show ?case
  proof (cases ev)
    case Tick
    from dda_step_runs[OF Cons.prems, of cf dda] obtain d1 s1 where
      st: "dda_step cf dda s = Inr (d1, s1)" and n1: "n_ok (move_state s1)" by blast
    from Cons.IH[OF n1, of d1] st Tick show ?thesis by simp
  next
    case Refresh
    have "n_ok (move_state (update_position cf dda s))"
      using Cons.prems by (simp add: update_position_fields)
    from Cons.IH[OF this, of dda] Refresh show ?thesis by simp
  qed
qed

section \<open>The example move, evaluated\<close>

lemma start_a: "dda_start planned_a state_a = (started_a, running_a)"
  by code_simp

lemma first_tick_a: "dda_step example_cfg started_a running_a = Inr (started_a, second_a)"
  by code_simp


lemma ticks7_a: "ticks example_cfg 7 started_a running_a = Inr (planned_a, final_b)"
  by code_simp

lemma ticks6_a: "live (fst (projr (ticks example_cfg 6 started_a running_a)))"
  by code_simp


section \<open>Completion and position tracking: auxiliary facts\<close>

lemma update_position_xyz:
  assumes "live dda"
  shows "X (current_position (update_position cf dda s))
           = (if x_direction dda then X (endpoint dda) - x_steps (move_state s)
              else X (endpoint dda) + x_steps (move_state s))"
    and "Y (current_position (update_position cf dda s))
           = (if y_direction dda then Y (endpoint dda) - y_steps (move_state s)
              else Y (endpoint dda) + y_steps (move_state s))"
    and "Z (current_position (update_position cf dda s))
           = (if z_direction dda then Z (endpoint dda) - z_steps (move_state s)
              else Z (endpoint dda) + z_steps (move_state s))"
    and "\<not> E_ABSOLUTE cf \<Longrightarrow>
           E (current_position (update_position cf dda s)) = e_steps (move_state s)"
    and "E_ABSOLUTE cf \<Longrightarrow>
           E (current_position (update_position cf dda s))
             = (if e_direction dda then E (endpoint dda) - e_steps (move_state s)
                else E (endpoint dda) + e_steps (move_state s))"
  using assms by (simp_all add: update_position_def Let_def)











section \<open>Ramp and timer: auxiliary facts\<close>

lemma sless_0: "(a :: 32 word) <s 0 \<longleftrightarrow> sint a < 0"
  by (simp add: word_sless_alt)

lemma sgreater_0: "0 <s (a :: 32 word) \<longleftrightarrow> 0 < sint a"
  by (simp add: word_sless_alt)

lemma force_up:
  assumes "sint (n :: 32 word) mod 4 = 1"
  shows "0 <s (if n <s 0 then - 2 - n else n)"
proof (cases "sint n < 0")
  case True
  have "sint (- 2 - n) mod 4 = 1" by (rule n_flip[OF assms])
  moreover have "sint (- 2 - n) = - 2 - sint n" by (rule n_flip_val[OF assms])
  ultimately have "0 < sint (- 2 - n)" using True by presburger
  then show ?thesis using True by (simp add: sless_0 sgreater_0)
next
  case False
  moreover have "sint n \<noteq> 0" using assms by auto
  ultimately show ?thesis by (simp add: sless_0 sgreater_0)
qed

lemma force_down:
  assumes "sint (n :: 32 word) mod 4 = 1"
  shows "(if 0 <s n then - 2 - n else n) <s 0"
proof (cases "0 < sint n")
  case True
  have "sint (- 2 - n) = - 2 - sint n" by (rule n_flip_val[OF assms])
  then have "sint (- 2 - n) < 0" using True by linarith
  then show ?thesis using True by (simp add: sless_0 sgreater_0)
next
  case False
  moreover have "sint n \<noteq> 0" using assms by auto
  ultimately show ?thesis by (simp add: sless_0 sgreater_0)
qed

lemma word_max_drop:
  "drop_bit 8 (a :: 32 word) \<le> drop_bit 8 (max a b)"
proof -
  have "unat a \<le> unat (max a b)" by (simp add: word_le_nat_alt[symmetric])
  then have "unat a div 2 ^ 8 \<le> unat (max a b) div 2 ^ 8" by (rule div_le_mono)
  then show ?thesis
    by (simp add: word_le_nat_alt drop_bit_eq_div unat_div)
qed

lemma ramp_update_recalc:
  assumes "ramp_update dda ms = Inr ms2" and "recalc_speed dda ms"
  shows "ms_n ms2 = force_n dda ms + 4"
    and "ms_c ms2 = ms_c ms - sdiv32 (ms_c ms * 2) (ms_n ms2)"
  using assms by (auto simp: ramp_update_def Let_def split: if_splits)

lemma ramp_update_cruise:
  assumes "ramp_update dda ms = Inr ms2" and "\<not> recalc_speed dda ms"
  shows "ms_n ms2 = ms_n ms" and "ms_c ms2 = ms_c ms"
  using assms by (auto simp: ramp_update_def Let_def split: if_splits)

lemma timer_value_max: "timer_value dda ms = drop_bit 8 (max (c_min dda) (ms_c ms))"
  by (auto simp: timer_value_def max_def)

lemma unat_shifted_dvd: "256 dvd unat (push_bit 8 (cl :: u32))"
proof -
  have "unat (push_bit 8 cl) = (unat cl * 256) mod 4294967296"
    by (simp add: push_bit_eq_mult unat_word_ariths)
  moreover have "(256 :: nat) dvd (unat cl * 256) mod 4294967296"
    by (rule dvd_mod) simp_all
  ultimately show ?thesis by simp
qed

lemma floor_exact:
  "unat (push_bit 8 (cl :: u32)) \<le> 256 * unat (drop_bit 8 (max (push_bit 8 cl) c))"
proof -
  let ?a = "push_bit 8 cl"
  let ?m = "max ?a c"
  have "unat ?a \<le> unat ?m" by (simp add: word_le_nat_alt[symmetric])
  then have "unat ?a div 256 \<le> unat ?m div 256" by (rule div_le_mono)
  then have "256 * (unat ?a div 256) \<le> 256 * (unat ?m div 256)" by simp
  moreover have "256 * (unat ?a div 256) = unat ?a"
    using unat_shifted_dvd[of cl] by (rule dvd_mult_div_cancel)
  moreover have "unat (drop_bit 8 ?m) = unat ?m div 256"
    by (simp add: drop_bit_eq_div unat_div)
  ultimately show ?thesis by simp
qed

lemma planned_c_min:
  assumes "dda_create cf dda t s = Inr (d, s1)" and "\<not> nullmove d"
  shows "\<exists>cl. c_min d = push_bit 8 cl"
  using assms(1)
proof (cases rule: dda_create_cases)
  case null
  then show ?thesis using assms(2) by simp
next
  case move
  from plan_timing_shape[OF move(2)] show ?thesis
    by (auto simp: clip_ramps_fields)
qed

lemma dda_init_n_ok: "n_ok (move_state (dda_init feed s))"
  by (simp add: n_ok_def dda_init_def)

section \<open>The length of a move: auxiliary facts\<close>

lemma step_axes_ok:
  assumes "in_range dda" and "axes_ok k dda ms"
  shows "axes_ok (Suc k) dda (step_axes dda ms)"
  using assms unfolding in_range_def axes_ok_def step_axes_fields
  by (intro conjI axis_ok_step) simp_all

lemma dominant_steps:
  assumes ts: "uint (total_steps dda) < 1073741824" and k: "int k < uint (total_steps dda)"
    and d: "delta = total_steps dda" and ok: "lead_ok k (total_steps dda) c r"
  shows "snd (snd (bresenham c r delta (total_steps dda)))"
    and "lead_ok (Suc k) (total_steps dda) (fst (bresenham c r delta (total_steps dda)))
           (fst (snd (bresenham c r delta (total_steps dda))))"
  using lead_ok_step[OF ts ok k] d by simp_all

lemma step_axes_lead:
  assumes "in_range dda" and "lead_axis k dda ms" and "int k < uint (total_steps dda)"
  shows "did_step dda ms" and "lead_axis (Suc k) dda (step_axes dda ms)"
proof -
  have ts: "uint (total_steps dda) < 1073741824" using assms(1) by (simp add: in_range_def)
  note ds = dominant_steps[OF ts assms(3)]
  from assms(2) consider
      (x) "x_delta dda = total_steps dda" "lead_ok k (total_steps dda) (x_counter ms) (x_steps ms)"
    | (y) "y_delta dda = total_steps dda" "lead_ok k (total_steps dda) (y_counter ms) (y_steps ms)"
    | (z) "z_delta dda = total_steps dda" "lead_ok k (total_steps dda) (z_counter ms) (z_steps ms)"
    | (e) "e_delta dda = total_steps dda" "lead_ok k (total_steps dda) (e_counter ms) (e_steps ms)"
    unfolding lead_axis_def by blast
  then have "did_step dda ms \<and> lead_axis (Suc k) dda (step_axes dda ms)"
  proof cases
    case x
    from ds[OF x] show ?thesis
      by (simp add: did_step_def x_stepped_def lead_axis_def step_axes_fields x(1))
  next
    case y
    from ds[OF y] show ?thesis
      by (simp add: did_step_def y_stepped_def lead_axis_def step_axes_fields y(1))
  next
    case z
    from ds[OF z] show ?thesis
      by (simp add: did_step_def z_stepped_def lead_axis_def step_axes_fields z(1))
  next
    case e
    from ds[OF e] show ?thesis
      by (simp add: did_step_def e_stepped_def lead_axis_def step_axes_fields e(1))
  qed
  then show "did_step dda ms" and "lead_axis (Suc k) dda (step_axes dda ms)" by simp_all
qed

lemma axes_done:
  assumes "axes_ok k dda ms" and "int k = uint (total_steps dda)" and "0 < k"
  shows "steps_done ms"
  using assms unfolding axes_ok_def steps_done_def
  by (auto intro: axis_ok_end)

lemma ramp_keeps_axes:
  assumes "ramp_update dda ms = Inr ms2"
  shows "axes_ok k dda ms2 = axes_ok k dda ms" and "lead_axis k dda ms2 = lead_axis k dda ms"
  by (simp_all add: axes_ok_def lead_axis_def ramp_update_fields[OF assms])

lemma ticks_0: "ticks cf 0 dda s = Inr (dda, s)"
  by (simp add: ticks_def)

lemma ticks_Suc:
  "ticks cf (Suc k) dda s =
     (case dda_step cf dda s of Inl e \<Rightarrow> Inl e | Inr r \<Rightarrow> ticks cf k (fst r) (snd r))"
  by (simp add: ticks_def split: sum.splits)

lemma ticks_last:
  "ticks cf (Suc k) dda s =
     (case ticks cf k dda s of Inl e \<Rightarrow> Inl e | Inr r \<Rightarrow> dda_step cf (fst r) (snd r))"
proof -
  have "replicate (Suc k) Tick = replicate k Tick @ [Tick]"
    by (simp add: replicate_append_same)
  then show ?thesis
    unfolding ticks_def by (simp only: exec_append) (simp split: sum.splits)
qed

lemma tick_while_stepping:
  assumes rng: "in_range dda" and n: "n_ok (move_state s)"
    and ax: "axes_ok k dda (move_state s)" and ld: "lead_axis k dda (move_state s)"
    and k: "int k < uint (total_steps dda)"
  shows "\<exists>s'. dda_step cf dda s = Inr (dda, s') \<and> n_ok (move_state s')
           \<and> axes_ok (Suc k) dda (move_state s') \<and> lead_axis (Suc k) dda (move_state s')"
proof -
  from dda_step_runs[OF n, of cf dda] obtain d' s' where
    st: "dda_step cf dda s = Inr (d', s')" and n': "n_ok (move_state s')" by blast
  note r = dda_step_result(1)[OF st]
  have ds: "did_step dda (move_state s)" by (rule step_axes_lead(1)[OF rng ld k])
  then have "\<not> finished dda (move_state s) (move_state s')" by (simp add: finished_def)
  then have d: "d' = dda" using dda_step_result(2)[OF st] by simp
  have "axes_ok (Suc k) dda (move_state s')"
    unfolding ramp_keeps_axes[OF r] by (rule step_axes_ok[OF rng ax])
  moreover have "lead_axis (Suc k) dda (move_state s')"
    unfolding ramp_keeps_axes[OF r] by (rule step_axes_lead(2)[OF rng ld k])
  ultimately show ?thesis using st n' d by blast
qed

lemma ticks_while_stepping:
  assumes "in_range dda" and "n_ok (move_state s)"
    and "axes_ok k dda (move_state s)" and "lead_axis k dda (move_state s)"
    and "int (k + j) \<le> uint (total_steps dda)"
  shows "\<exists>s'. ticks cf j dda s = Inr (dda, s') \<and> n_ok (move_state s')
           \<and> axes_ok (k + j) dda (move_state s') \<and> lead_axis (k + j) dda (move_state s')"
  using assms
proof (induction j arbitrary: k s)
  case 0
  then show ?case by (simp add: ticks_0)
next
  case (Suc j)
  have "int k < uint (total_steps dda)" using Suc.prems(5) by linarith
  from tick_while_stepping[OF Suc.prems(1-4) this, of cf] obtain s1 where
    st: "dda_step cf dda s = Inr (dda, s1)" and n1: "n_ok (move_state s1)"
    and a1: "axes_ok (Suc k) dda (move_state s1)" and l1: "lead_axis (Suc k) dda (move_state s1)"
    by blast
  have "int (Suc k + j) \<le> uint (total_steps dda)" using Suc.prems(5) by simp
  from Suc.IH[OF Suc.prems(1) n1 a1 l1 this] st show ?case
    by (simp add: ticks_Suc)
qed

lemma max4_cases:
  assumes "(ts :: u32) = max (max (max a b) c) d"
  shows "a \<le> ts \<and> b \<le> ts \<and> c \<le> ts \<and> d \<le> ts \<and> (a = ts \<or> b = ts \<or> c = ts \<or> d = ts)"
  using assms by (auto simp: max_def)

lemma start_invariant:
  assumes nn: "\<not> nullmove d" and ts: "uint (total_steps d) < 1073741824"
    and mx: "total_steps d = max (max (max (x_delta d) (y_delta d)) (z_delta d)) (e_delta d)"
  shows "in_range (fst (dda_start d s))"
    and "axes_ok 0 (fst (dda_start d s)) (move_state (snd (dda_start d s)))"
    and "lead_axis 0 (fst (dda_start d s)) (move_state (snd (dda_start d s)))"
proof -
  note m = max4_cases[OF mx]
  let ?d = "d\<lparr>live := True\<rparr>"
  note f = dda_start_fields[OF nn, of s]
  show "in_range (fst (dda_start d s))"
    unfolding f(1) using m ts by (simp add: in_range_def)
  show "axes_ok 0 (fst (dda_start d s)) (move_state (snd (dda_start d s)))"
    unfolding f(1) axes_ok_def using m axis_ok_start[OF ts]
    by (simp add: f)
  show "lead_axis 0 (fst (dda_start d s)) (move_state (snd (dda_start d s)))"
    unfolding f(1) lead_axis_def using m lead_ok_start[OF ts]
    by (auto simp: f)
qed

section \<open>Claims about the planner\<close>

text \<open>
  Claim C5, as amended. For every ramping move after planning whose ramp length \<open>x\<close> as
  computed at lines 352 to 369 is below \<open>2 ^ 31\<close>, \<open>rampup_steps * 2 \<le> total_steps\<close>
  (\<open>rampup_steps\<close> is \<open>x\<close>, clipped to \<open>total_steps / 2\<close> when \<open>2 * x\<close> exceeds \<open>total_steps\<close>)
  and \<open>rampdown_steps = total_steps - rampup_steps\<close>. For any \<open>x\<close> the two relations and
  the clipping hold in the 32-bit arithmetic of the code, where the product \<open>2 * x\<close> of
  line 375 wraps around; as numbers, \<open>rampup_steps * 2 \<le> total_steps\<close> holds exactly when
  \<open>x\<close> is below \<open>2 ^ 31\<close> or the wrapped product still exceeds \<open>total_steps\<close>.
\<close>

theorem ramp_lengths:
  assumes "dda_create cf dda t s = Inr (d, s')" and "\<not> nullmove d"
  shows "\<exists>x. planned_rampup cf (plan_deltas dda t (startpoint s)) t = Inr x
    \<and> rampup_steps d = (if total_steps d < 2 * x then total_steps d div 2 else x)
    \<and> rampdown_steps d = total_steps d - rampup_steps d
    \<and> 2 * rampup_steps d \<le> total_steps d
    \<and> (unat x < 2 ^ 31 \<longrightarrow>
          rampup_steps d
            = (if unat (total_steps d) < 2 * unat x then total_steps d div 2 else x)
          \<and> 2 * unat (rampup_steps d) \<le> unat (total_steps d)
          \<and> unat (rampdown_steps d) = unat (total_steps d) - unat (rampup_steps d))
    \<and> (2 * unat (rampup_steps d) \<le> unat (total_steps d)
          \<longleftrightarrow> unat x < 2 ^ 31 \<or> total_steps d < 2 * x)"
  using assms(1)
proof (cases rule: dda_create_cases)
  case null
  then show ?thesis using assms(2) by simp
next
  case move
  let ?d1 = "plan_deltas dda t (startpoint s)"
  from plan_timing_ramp[OF move(2)] obtain x where
    rl: "planned_rampup cf ?d1 t = Inr x" and
    ru: "rampup_steps d = rampup_steps (clip_ramps ?d1 x)" and
    rd: "rampdown_steps d = rampdown_steps (clip_ramps ?d1 x)" and
    ts: "total_steps d = total_steps ?d1" by blast
  have w: "rampup_steps d = (if total_steps d < 2 * x then total_steps d div 2 else x)"
      "rampdown_steps d = total_steps d - rampup_steps d"
      "2 * rampup_steps d \<le> total_steps d"
    unfolding ts ru rd by (rule clip_ramps_word)+
  have n: "rampup_steps d
            = (if unat (total_steps d) < 2 * unat x then total_steps d div 2 else x)
          \<and> 2 * unat (rampup_steps d) \<le> unat (total_steps d)
          \<and> unat (rampdown_steps d) = unat (total_steps d) - unat (rampup_steps d)"
    if "unat x < 2 ^ 31"
    using w(1) clip_ramps_test[OF that, of ?d1] clip_ramps_nat[OF that, of ?d1]
    unfolding ts ru rd by simp
  have e: "2 * unat (rampup_steps d) \<le> unat (total_steps d)
          \<longleftrightarrow> unat x < 2 ^ 31 \<or> total_steps d < 2 * x"
    unfolding ts ru by (rule clip_ramps_exact)
  show ?thesis using rl w n e by blast
qed

theorem ramp_lengths_witness:
  "planned_rampup example_cfg (plan_deltas blank_dda move_a (startpoint init_state)) move_a
     = Inr 588
   \<and> rampup_steps planned_a = total_steps planned_a div 2
   \<and> 2 * unat (rampup_steps planned_a) \<le> unat (total_steps planned_a)
   \<and> unat (rampdown_steps planned_a)
       = unat (total_steps planned_a) - unat (rampup_steps planned_a)"
proof -
  have n: "\<not> nullmove planned_a" by (simp add: planned_a_def)
  from ramp_lengths[OF created_a n] obtain x where
    r: "planned_rampup example_cfg (plan_deltas blank_dda move_a (startpoint init_state)) move_a
          = Inr x" and
    c: "unat x < 2 ^ 31 \<longrightarrow>
          rampup_steps planned_a
            = (if unat (total_steps planned_a) < 2 * unat x then total_steps planned_a div 2
               else x)
          \<and> 2 * unat (rampup_steps planned_a) \<le> unat (total_steps planned_a)
          \<and> unat (rampdown_steps planned_a)
              = unat (total_steps planned_a) - unat (rampup_steps planned_a)"
    by blast
  have x: "x = 588" using r planned_rampup_a by simp
  have h: "unat (588 :: u32) < 2 ^ 31" by simp
  have i: "unat (total_steps planned_a) < 2 * unat (588 :: u32)" by (simp add: planned_a_def)
  from c[unfolded x] h have
    k1: "rampup_steps planned_a
          = (if unat (total_steps planned_a) < 2 * unat (588 :: u32)
             then total_steps planned_a div 2 else 588)" and
    k2: "2 * unat (rampup_steps planned_a) \<le> unat (total_steps planned_a)" and
    k3: "unat (rampdown_steps planned_a)
          = unat (total_steps planned_a) - unat (rampup_steps planned_a)"
    by blast+
  have "rampup_steps planned_a = total_steps planned_a div 2"
    using k1 i by (simp only: if_True)
  then show ?thesis using k2 k3 planned_rampup_a by blast
qed

text \<open>
  The claim as stated fails for the move \<open>move_c\<close> of 1217021933 steps: the ramp length
  computed for it is 2641161728, doubling it wraps around to 987356160, which does not
  exceed \<open>total_steps\<close>, so the ramp is not clipped: \<open>rampup_steps\<close> is larger than
  \<open>total_steps\<close> itself, and \<open>rampdown_steps\<close> is the difference wrapped around.
\<close>

theorem ramp_lengths_counterexample:
  "dda_create example_cfg blank_dda move_c init_state = Inr (planned_c, state_c)
   \<and> \<not> nullmove planned_c
   \<and> planned_rampup example_cfg (plan_deltas blank_dda move_c (startpoint init_state)) move_c
       = Inr 2641161728
   \<and> total_steps planned_c = 1217021933
   \<and> rampup_steps planned_c = 2641161728
   \<and> rampdown_steps planned_c = 2870827501
   \<and> \<not> 2 * unat (rampup_steps planned_c) \<le> unat (total_steps planned_c)
   \<and> rampup_steps planned_c \<noteq> total_steps planned_c div 2
   \<and> unat (rampdown_steps planned_c)
       \<noteq> unat (total_steps planned_c) - unat (rampup_steps planned_c)"
  using created_c planned_rampup_c by (simp add: planned_c_def)

text \<open>
  Claim C6. In the planner's distance computation the extruder travel is folded into the
  move's distance by the 2D approximation exactly when the extruder distance is at least
  1/8 of the planar distance. The code does not do so at the threshold itself, because
  the test of line 155, \<open>distance < (e_feed << 3)\<close>, is strict. The move \<open>move_b\<close> of 668 X
  steps and 334 E steps has a planar distance of 8016 micrometres and an extruder
  distance of 1002 micrometres: exactly one eighth of it, and well above the 1/64 of
  the comment at line 154, by which an \<open>e_feed\<close> of more than 1/64 of the distance is
  not to be ignored. The planner still ignores the extruder travel and keeps the distance
  8016, where folding gives 8517.
\<close>

theorem extruder_fold_at_eighth:
  "planar_distance example_cfg (plan_deltas blank_dda move_b origin) = 8016
   \<and> STEPS_TO_UM_E example_cfg (e_delta (plan_deltas blank_dda move_b origin)) = 1002
   \<and> move_distance example_cfg (plan_deltas blank_dda move_b origin) = 8016
   \<and> approx_distance_2d example_cfg 8016 1002 = 8517"
  by (simp add: e_feed_b planar_b distance_b fold_b)

text \<open>
  Claim C7. A move whose target equals the planner's current position (\<open>startpoint\<close>) on
  all four axes is planned as a \<open>nullmove\<close>; planning it changes only \<open>startpoint\<close>, and
  activating it sets \<open>current_position.F\<close> to the endpoint's feed rate and nothing else:
  the record stays not live, so the step generator is never run for it, and the
  hardware (timer, direction and driver outputs, pulse counts), the move state and
  \<open>steptimeout\<close> are as they were before planning. Even if the step generator were run
  on the record, with the previous move finished, it would emit no pulse.
\<close>

theorem null_move:
  assumes "X t = X (startpoint s)" and "Y t = Y (startpoint s)"
    and "Z t = Z (startpoint s)" and "E t = E (startpoint s)"
  shows "\<exists>d s1 s2. dda_create cf dda t s = Inr (d, s1) \<and> nullmove d \<and> endpoint d = t
           \<and> s1 = s\<lparr>startpoint := next_startpoint cf t\<rparr>
           \<and> dda_start d s1 = (d, s2) \<and> \<not> live d
           \<and> s2 = s1\<lparr>current_position := (current_position s1)\<lparr>F := F t\<rparr>\<rparr>
           \<and> hal s2 = hal s \<and> move_state s2 = move_state s
           \<and> steptimeout s2 = steptimeout s
           \<and> (steps_done (move_state s) \<longrightarrow>
                (\<forall>evs d3 s3. exec cf evs d s2 = Inr (d3, s3) \<longrightarrow>
                   x_pulses (hal s3) = x_pulses (hal s) \<and> y_pulses (hal s3) = y_pulses (hal s)
                   \<and> z_pulses (hal s3) = z_pulses (hal s)
                   \<and> e_pulses (hal s3) = e_pulses (hal s)))"
proof -
  let ?d1 = "plan_deltas dda t (startpoint s)"
  have "total_steps ?d1 = 0"
    using assms by (simp add: plan_deltas_def Let_def labs_def)
  then have c: "dda_create cf dda t s
      = Inr (?d1\<lparr>nullmove := True\<rparr>, s\<lparr>startpoint := next_startpoint cf t\<rparr>)"
    by (simp add: dda_create_def Let_def)
  let ?d = "?d1\<lparr>nullmove := True\<rparr>"
  let ?s1 = "s\<lparr>startpoint := next_startpoint cf t\<rparr>"
  let ?s2 = "?s1\<lparr>current_position := (current_position ?s1)\<lparr>F := F t\<rparr>\<rparr>"
  have st: "dda_start ?d ?s1 = (?d, ?s2)"
    by (simp add: dda_start_def plan_deltas_fields)
  have idle: "x_pulses (hal s3) = x_pulses (hal s) \<and> y_pulses (hal s3) = y_pulses (hal s)
      \<and> z_pulses (hal s3) = z_pulses (hal s) \<and> e_pulses (hal s3) = e_pulses (hal s)"
    if "steps_done (move_state s)" "exec cf evs ?d ?s2 = Inr (d3, s3)" for evs d3 s3
    using exec_idle[OF that(2)] that(1) by simp
  show ?thesis
    unfolding c using st idle by (simp add: plan_deltas_fields)
qed

theorem null_move_witness:
  "\<exists>d. dda_create example_cfg blank_dda (origin\<lparr>F := 200\<rparr>) init_state
        = Inr (d, init_state\<lparr>startpoint := origin\<lparr>F := 200\<rparr>\<rparr>) \<and> nullmove d"
proof -
  have "X (origin\<lparr>F := 200\<rparr>) = X (startpoint init_state)"
       "Y (origin\<lparr>F := 200\<rparr>) = Y (startpoint init_state)"
       "Z (origin\<lparr>F := 200\<rparr>) = Z (startpoint init_state)"
       "E (origin\<lparr>F := 200\<rparr>) = E (startpoint init_state)"
    by (simp_all add: init_state_def dda_init_def blank_state_def origin_def)
  from null_move[OF this, of example_cfg blank_dda] show ?thesis
    by (auto simp: next_startpoint_def example_cfg_def origin_def)
qed

text \<open>
  Claim C8, as amended. The planner divides by \<open>total_steps\<close> only in the branch where
  it is not zero, so that division is never a division by zero. The other divisors are
  not guarded: the target feed rate, the distance, the integer square root in the \<open>c0\<close>
  formula, \<open>c_limit\<close> and the divisor of the ramp length. The planner runs without a
  division by zero exactly when the move is a null move or all of these are nonzero.
\<close>

theorem planner_divisions:
  "dda_create cf dda t s \<noteq> Inl (DivByZero Div_total_steps)
   \<and> ((\<exists>r. dda_create cf dda t s = Inr r) \<longleftrightarrow>
        (let d1 = plan_deltas dda t (startpoint s); dist = move_distance cf d1 in
         total_steps d1 = 0 \<or>
         (F t \<noteq> 0 \<and> dist \<noteq> 0
          \<and> int_sqrt cf (accel_quotient cf (total_steps d1) dist) \<noteq> 0
          \<and> limiting_ticks cf d1 (dist * 60 div F t) div total_steps d1 \<noteq> 0
          \<and> ramp_divisor cf d1 \<noteq> 0)))"
  by (auto simp: dda_create_def plan_timing_def plan_c_limit_def plan_c0_def
        natural_rampup_def udiv_def Let_def split: sum.splits if_splits)

theorem planner_divisions_witness:
  "\<exists>r. dda_create example_cfg blank_dda move_a init_state = Inr r"
proof -
  have "let d1 = plan_deltas blank_dda move_a (startpoint init_state);
            dist = move_distance example_cfg d1 in
         total_steps d1 = 0 \<or>
         (F move_a \<noteq> 0 \<and> dist \<noteq> 0
          \<and> int_sqrt example_cfg (accel_quotient example_cfg (total_steps d1) dist) \<noteq> 0
          \<and> limiting_ticks example_cfg d1 (dist * 60 div F move_a) div total_steps d1 \<noteq> 0
          \<and> ramp_divisor example_cfg d1 \<noteq> 0)"
    by code_simp
  then show ?thesis
    using planner_divisions[of example_cfg blank_dda move_a init_state] by blast
qed

text \<open>
  The claim as stated fails for a move of one X step whose target feed rate is zero:
  the planner divides \<open>move_duration\<close> by it.
\<close>

theorem planner_divisions_counterexample:
  "dda_create example_cfg blank_dda (origin\<lparr>X := 1\<rparr>) init_state
     = Inl (DivByZero Div_target_F)"
  by code_simp

text \<open>
  Claim C9, as amended. When the planner returns, \<open>startpoint\<close> equals the target on X, Y
  and Z and in the feed rate; its E is the target's E when the firmware is built with
  \<open>E_ABSOLUTE\<close>, and zero in the relative-extruder build of the provided configuration.
\<close>

theorem startpoint_after_plan:
  assumes "dda_create cf dda t s = Inr (d, s')"
  shows "startpoint s' = (if E_ABSOLUTE cf then t else t\<lparr>E := 0\<rparr>)"
  using assms by (cases rule: dda_create_cases) (simp_all add: next_startpoint_def)

theorem startpoint_after_plan_witness:
  "startpoint state_a = move_a\<lparr>E := 0\<rparr> \<and> \<not> E_ABSOLUTE example_cfg"
  using startpoint_after_plan[OF created_a] by (simp add: example_cfg_def)

text \<open>
  The claim as stated fails on the extruder axis: after planning \<open>move_a\<close>, whose E is 2,
  \<open>startpoint.E\<close> is 0.
\<close>

theorem startpoint_E_counterexample:
  "dda_create example_cfg blank_dda move_a init_state = Inr (planned_a, state_a)
     \<and> E (startpoint state_a) \<noteq> E move_a"
  using created_a by (simp add: state_a_def move_a_def)

section \<open>Claims about activation, stepping and position tracking\<close>




text \<open>
  Claim C3. On every invocation of the step generator \<open>step_no\<close> is incremented. While
  \<open>step_no < rampup_steps\<close> the counter \<open>n\<close> is made positive (a negative \<open>n\<close> becomes
  \<open>-2 - n\<close>), while \<open>step_no > rampdown_steps\<close> it is made negative (a positive \<open>n\<close>
  becomes \<open>-2 - n\<close>); in both cases \<open>n\<close> is then incremented by 4 and the period \<open>c\<close>
  becomes \<open>c - (c * 2) / n\<close> with the new \<open>n\<close>, the division being the signed one of C.
  Otherwise \<open>c\<close> and \<open>n\<close> are left as they are; the three cases are tried in this order.
  The counter \<open>n\<close> is congruent to 1 modulo 4 in every state the firmware reaches:
  \<open>dda_init\<close> sets it to 1, the planner and the activator do not touch it, and each
  invocation of the step generator keeps the congruence.
\<close>

theorem ramp_step:
  assumes "sint (ms_n (move_state s)) mod 4 = 1"
  shows "sint (ms_n (move_state (dda_init feed s0))) mod 4 = 1
     \<and> (\<exists>d' s'. dda_step cf dda s = Inr (d', s')
     \<and> step_no (move_state s') = step_no (move_state s) + 1
     \<and> sint (ms_n (move_state s')) mod 4 = 1
     \<and> (step_no (move_state s) < rampup_steps dda \<longrightarrow>
          (let nf = (if ms_n (move_state s) <s 0 then - 2 - ms_n (move_state s)
                     else ms_n (move_state s))
           in 0 <s nf \<and> ms_n (move_state s') = nf + 4
              \<and> ms_c (move_state s')
                   = ms_c (move_state s)
                     - sdiv32 (ms_c (move_state s) * 2) (ms_n (move_state s'))))
     \<and> (\<not> step_no (move_state s) < rampup_steps dda
          \<and> step_no (move_state s) > rampdown_steps dda \<longrightarrow>
          (let nf = (if 0 <s ms_n (move_state s) then - 2 - ms_n (move_state s)
                     else ms_n (move_state s))
           in nf <s 0 \<and> ms_n (move_state s') = nf + 4
              \<and> ms_c (move_state s')
                   = ms_c (move_state s)
                     - sdiv32 (ms_c (move_state s) * 2) (ms_n (move_state s'))))
     \<and> (\<not> step_no (move_state s) < rampup_steps dda
          \<and> \<not> step_no (move_state s) > rampdown_steps dda \<longrightarrow>
          ms_c (move_state s') = ms_c (move_state s)
          \<and> ms_n (move_state s') = ms_n (move_state s)))"
proof -
  let ?ms = "move_state s"
  let ?m1 = "step_axes dda ?ms"
  have ok: "n_ok ?ms" using assms by (simp add: n_ok_def)
  from dda_step_runs[OF ok, of cf dda] obtain d' s' where
    st: "dda_step cf dda s = Inr (d', s')" and ok': "n_ok (move_state s')" by blast
  have r: "ramp_update dda ?m1 = Inr (move_state s')" by (rule dda_step_result(1)[OF st])
  have f: "ms_n ?m1 = ms_n ?ms" "ms_c ?m1 = ms_c ?ms" "step_no ?m1 = step_no ?ms"
    by (simp_all add: step_axes_fields)
  have nz: "force_n dda ?m1 + 4 \<noteq> 0"
    by (rule n_nonzero, rule n_add4, rule force_n_ok) (simp add: step_axes_n_ok ok)
  have no: "step_no (move_state s') = step_no ?ms + 1"
    using ramp_update_fields(9)[OF r] f by simp
  have up: "step_no ?ms < rampup_steps dda \<longrightarrow>
          (let nf = (if ms_n ?ms <s 0 then - 2 - ms_n ?ms else ms_n ?ms)
           in 0 <s nf \<and> ms_n (move_state s') = nf + 4
              \<and> ms_c (move_state s') = ms_c ?ms - sdiv32 (ms_c ?ms * 2) (ms_n (move_state s')))"
  proof
    assume a: "step_no ?ms < rampup_steps dda"
    then have rc: "recalc_speed dda ?m1" by (simp add: recalc_speed_def f)
    have fn: "force_n dda ?m1 = (if ms_n ?ms <s 0 then - 2 - ms_n ?ms else ms_n ?ms)"
      using a by (simp add: force_n_def f)
    show "let nf = (if ms_n ?ms <s 0 then - 2 - ms_n ?ms else ms_n ?ms)
           in 0 <s nf \<and> ms_n (move_state s') = nf + 4
              \<and> ms_c (move_state s') = ms_c ?ms - sdiv32 (ms_c ?ms * 2) (ms_n (move_state s'))"
      using ramp_update_recalc[OF r rc] force_up[OF assms]
      unfolding Let_def fn[symmetric] f by blast
  qed
  have down: "\<not> step_no ?ms < rampup_steps dda \<and> step_no ?ms > rampdown_steps dda \<longrightarrow>
          (let nf = (if 0 <s ms_n ?ms then - 2 - ms_n ?ms else ms_n ?ms)
           in nf <s 0 \<and> ms_n (move_state s') = nf + 4
              \<and> ms_c (move_state s') = ms_c ?ms - sdiv32 (ms_c ?ms * 2) (ms_n (move_state s')))"
  proof
    assume a: "\<not> step_no ?ms < rampup_steps dda \<and> step_no ?ms > rampdown_steps dda"
    then have rc: "recalc_speed dda ?m1" by (simp add: recalc_speed_def f)
    have fn: "force_n dda ?m1 = (if 0 <s ms_n ?ms then - 2 - ms_n ?ms else ms_n ?ms)"
      using a by (simp add: force_n_def f)
    show "let nf = (if 0 <s ms_n ?ms then - 2 - ms_n ?ms else ms_n ?ms)
           in nf <s 0 \<and> ms_n (move_state s') = nf + 4
              \<and> ms_c (move_state s') = ms_c ?ms - sdiv32 (ms_c ?ms * 2) (ms_n (move_state s'))"
      using ramp_update_recalc[OF r rc] force_down[OF assms]
      unfolding Let_def fn[symmetric] f by blast
  qed
  have cruise: "\<not> step_no ?ms < rampup_steps dda \<and> \<not> step_no ?ms > rampdown_steps dda \<longrightarrow>
          ms_c (move_state s') = ms_c ?ms \<and> ms_n (move_state s') = ms_n ?ms"
  proof
    assume a: "\<not> step_no ?ms < rampup_steps dda \<and> \<not> step_no ?ms > rampdown_steps dda"
    then have rc: "\<not> recalc_speed dda ?m1" by (simp add: recalc_speed_def f)
    show "ms_c (move_state s') = ms_c ?ms \<and> ms_n (move_state s') = ms_n ?ms"
      using ramp_update_cruise[OF r rc] by (simp add: f)
  qed
  have init: "sint (ms_n (move_state (dda_init feed s0))) mod 4 = 1"
    using dda_init_n_ok[of feed s0] by (simp add: n_ok_def)
  show ?thesis using init st no ok' up down cruise unfolding n_ok_def by blast
qed

theorem ramp_step_witness:
  "step_no (move_state second_a) = 1 \<and> ms_n (move_state second_a) = 5
   \<and> ms_c (move_state second_a) = 25128704 - sdiv32 (25128704 * 2) 5"
proof -
  have a: "sint (ms_n (move_state running_a)) mod 4 = 1" by (simp add: running_a_def)
  have b: "step_no (move_state running_a) < rampup_steps started_a"
    by (simp add: running_a_def started_a_def planned_a_def)
  have c: "ms_n (move_state running_a) = 1" "ms_c (move_state running_a) = 25128704"
    "step_no (move_state running_a) = 0"
    by (simp_all add: running_a_def)
  have d: "\<not> (1 :: i32) <s 0" by (simp add: word_sless_alt)
  from ramp_step[OF a, where cf = example_cfg and dda = started_a] b show ?thesis
    unfolding first_tick_a Let_def c using d by auto
qed

text \<open>
  Claim C4. The step periods \<open>c\<close> and \<open>c_min\<close> are kept in units of 1/256 timer tick. Every
  value given to \<open>setTimer\<close>, when a non-null move is activated and at the end of every
  invocation of the step generator, is the larger of \<open>c_min\<close> and the current period,
  shifted right by eight bits to whole ticks; it is never below the move's \<open>c_min\<close> in
  whole ticks. For a record made by the planner \<open>c_min\<close> is a whole number of ticks, so
  the programmed delay is never shorter than \<open>c_min\<close>.
\<close>

theorem timer_programming:
  "(\<not> nullmove dda \<longrightarrow>
      timer (hal (snd (dda_start dda s)))
        = timer (hal s) @ [drop_bit 8 (max (c_min dda) (ms_c (move_state (snd (dda_start dda s)))))]
      \<and> ms_c (move_state (snd (dda_start dda s))) = c0 dda)
   \<and> (\<forall>d' s'. dda_step cf dda s = Inr (d', s') \<longrightarrow>
         timer (hal s')
           = timer (hal s) @ [drop_bit 8 (max (c_min dda) (ms_c (move_state s')))])
   \<and> (\<forall>c. drop_bit 8 (c_min dda) \<le> drop_bit 8 (max (c_min dda) c))
   \<and> (\<forall>dda0 t s0 s1. dda_create cf dda0 t s0 = Inr (dda, s1) \<and> \<not> nullmove dda \<longrightarrow>
         (\<forall>c. unat (c_min dda) \<le> 256 * unat (drop_bit 8 (max (c_min dda) c))))"
proof -
  have "unat (c_min dda) \<le> 256 * unat (drop_bit 8 (max (c_min dda) c))"
    if "dda_create cf dda0 t s0 = Inr (dda, s1)" "\<not> nullmove dda" for dda0 t s0 s1 c
    using planned_c_min[OF that] floor_exact by auto
  then show ?thesis
    using dda_start_fields(11,18)[of dda s] dda_step_result(5)[of cf dda s]
    by (simp add: timer_value_max word_max_drop) blast
qed

theorem timer_programming_witness:
  "timer (hal running_a) = timer (hal state_a) @ [98159]
   \<and> timer (hal second_a) = timer (hal running_a) @ [58895]
   \<and> drop_bit 8 (c_min started_a) = 2857
   \<and> unat (c_min planned_a) \<le> 256 * unat (drop_bit 8 (max (c_min planned_a) (c0 planned_a)))"
proof -
  have n: "\<not> nullmove planned_a" by (simp add: planned_a_def)
  have a: "drop_bit 8 (max (c_min planned_a) (ms_c (move_state running_a))) = 98159"
    by code_simp
  have b: "drop_bit 8 (max (c_min started_a) (ms_c (move_state second_a))) = 58895"
    by code_simp
  have c: "drop_bit 8 (c_min started_a) = 2857" by code_simp
  from timer_programming[of planned_a state_a example_cfg] n a
  have 1: "timer (hal running_a) = timer (hal state_a) @ [98159]"
    by (simp add: start_a)
  from timer_programming[of started_a running_a example_cfg] first_tick_a b
  have 2: "timer (hal second_a) = timer (hal running_a) @ [58895]" by simp
  from timer_programming[of planned_a state_a example_cfg] n created_a
  have 3: "unat (c_min planned_a) \<le> 256 * unat (drop_bit 8 (max (c_min planned_a) (c0 planned_a)))"
    by blast
  show ?thesis using 1 2 3 c by simp
qed

text \<open>
  Claim C10. In relative-extruder mode \<open>update_position\<close> on a live record sets
  \<open>current_position.E\<close> to the raw count of extruder steps that remain, whereas X, Y and Z
  are the endpoint minus or plus the remaining steps, by direction. The remaining count
  starts at \<open>e_delta\<close>, falls by one with every extruder pulse, and is zero when the move
  has completed.
\<close>

theorem relative_e_position:
  assumes rel: "\<not> E_ABSOLUTE cf" and nn: "\<not> nullmove d"
    and sa: "dda_start d s = (d1, s1)" and ex: "exec cf evs d1 s1 = Inr (d2, s2)"
  shows "e_steps (move_state s1) = e_delta d
    \<and> unat (e_steps (move_state s2)) + (e_pulses (hal s2) - e_pulses (hal s)) = unat (e_delta d)
    \<and> (live d2 \<longrightarrow>
         E (current_position (update_position cf d2 s2)) = e_steps (move_state s2)
         \<and> X (current_position (update_position cf d2 s2))
             = (if x_direction d then X (endpoint d) - x_steps (move_state s2)
                else X (endpoint d) + x_steps (move_state s2))
         \<and> Y (current_position (update_position cf d2 s2))
             = (if y_direction d then Y (endpoint d) - y_steps (move_state s2)
                else Y (endpoint d) + y_steps (move_state s2))
         \<and> Z (current_position (update_position cf d2 s2))
             = (if z_direction d then Z (endpoint d) - z_steps (move_state s2)
                else Z (endpoint d) + z_steps (move_state s2)))
    \<and> (\<not> live d2 \<longrightarrow> e_steps (move_state s2) = 0
          \<and> update_position cf d2 s2 = s2)"
proof -
  have d1: "d1 = d\<lparr>live := True\<rparr>" and s1: "s1 = snd (dda_start d s)"
    using dda_start_fields(1)[OF nn, of s] sa by simp_all
  have a: "e_steps (move_state s1) = e_delta d" by (simp add: s1 dda_start_fields[OF nn])
  have p: "e_pulses (hal s2) + unat (e_steps (move_state s2)) = e_pulses (hal s) + unat (e_delta d)"
    using exec_pulses[OF ex] by (simp add: s1 dda_start_fields[OF nn])
  then have b: "unat (e_steps (move_state s2)) + (e_pulses (hal s2) - e_pulses (hal s))
      = unat (e_delta d)"
    using exec_pulses_mono[OF ex] by (simp add: s1 dda_start_fields[OF nn])
  have d2: "d2 = d1\<lparr>live := live d2\<rparr>" by (rule exec_dda[OF ex])
  then have same: "endpoint d2 = endpoint d" "x_direction d2 = x_direction d"
    "y_direction d2 = y_direction d" "z_direction d2 = z_direction d"
    using d1 by (metis DDA.select_convs DDA.surjective DDA.update_convs(3))+
  have c: "live d2 \<longrightarrow>
         E (current_position (update_position cf d2 s2)) = e_steps (move_state s2)
         \<and> X (current_position (update_position cf d2 s2))
             = (if x_direction d then X (endpoint d) - x_steps (move_state s2)
                else X (endpoint d) + x_steps (move_state s2))
         \<and> Y (current_position (update_position cf d2 s2))
             = (if y_direction d then Y (endpoint d) - y_steps (move_state s2)
                else Y (endpoint d) + y_steps (move_state s2))
         \<and> Z (current_position (update_position cf d2 s2))
             = (if z_direction d then Z (endpoint d) - z_steps (move_state s2)
                else Z (endpoint d) + z_steps (move_state s2))"
    using update_position_xyz[of d2 cf s2] rel same by simp
  have "live d1" by (simp add: d1)
  from exec_settles[OF ex] this
  have e: "\<not> live d2 \<longrightarrow> e_steps (move_state s2) = 0 \<and> update_position cf d2 s2 = s2"
    by (auto simp: settled_def steps_done_def update_position_idle)
  show ?thesis using a b c e by blast
qed

theorem relative_e_position_witness:
  "E (current_position (update_position example_cfg started_a second_a)) = 1
   \<and> e_steps (move_state running_a) = 2 \<and> e_pulses (hal second_a) = 1"
proof -
  have rel: "\<not> E_ABSOLUTE example_cfg" by (simp add: example_cfg_def)
  have n: "\<not> nullmove planned_a" by (simp add: planned_a_def)
  have ex: "exec example_cfg [Tick] started_a running_a = Inr (started_a, second_a)"
    by (simp add: first_tick_a)
  have l: "live started_a" by (simp add: started_a_def)
  from relative_e_position[OF rel n start_a ex] l show ?thesis
    by (simp add: second_a_def planned_a_def)
qed

text \<open>
  Claim C2, as amended. For every move created by the planner, \<open>total_steps\<close> equals the
  maximum of the four per-axis step deltas. A non-null move with \<open>total_steps\<close> below
  \<open>2 ^ 30\<close>, activated in any state \<open>sq\<close> that the firmware reaches, emits pulses on exactly the first \<open>total_steps\<close> timer interrupts: each of
  them steps at least one axis, and after them no axis has steps left. The record is
  still live then; the next interrupt, the one numbered \<open>total_steps + 1\<close>, finds nothing
  to step and marks the record not live.
\<close>

theorem move_ticks:
  assumes cr: "dda_create cf dda t s = Inr (d, s1)"
  shows "total_steps d = max (max (max (x_delta d) (y_delta d)) (z_delta d)) (e_delta d)
     \<and> (\<not> nullmove d \<and> uint (total_steps d) < 2 ^ 30
          \<and> sint (ms_n (move_state sq)) mod 4 = 1 \<longrightarrow>
        live (fst (dda_start d sq))
        \<and> (\<forall>k < unat (total_steps d). \<exists>s'.
              ticks cf k (fst (dda_start d sq)) (snd (dda_start d sq))
                = Inr (fst (dda_start d sq), s')
              \<and> did_step d (move_state s') \<and> \<not> steps_done (move_state s'))
        \<and> (\<exists>s'. ticks cf (unat (total_steps d)) (fst (dda_start d sq)) (snd (dda_start d sq))
                    = Inr (fst (dda_start d sq), s')
                 \<and> steps_done (move_state s'))
        \<and> (\<exists>s'. ticks cf (Suc (unat (total_steps d))) (fst (dda_start d sq))
                      (snd (dda_start d sq))
                    = Inr (d, s')))"
proof -
  have mx: "total_steps d = max (max (max (x_delta d) (y_delta d)) (z_delta d)) (e_delta d)"
    by (rule max_steps[OF cr])
  have dead: "\<not> live d" by (rule dda_create_deltas(8)[OF cr])
  have run: "live (fst (dda_start d sq))
        \<and> (\<forall>k < unat (total_steps d). \<exists>s'.
              ticks cf k (fst (dda_start d sq)) (snd (dda_start d sq))
                = Inr (fst (dda_start d sq), s')
              \<and> did_step d (move_state s') \<and> \<not> steps_done (move_state s'))
        \<and> (\<exists>s'. ticks cf (unat (total_steps d)) (fst (dda_start d sq)) (snd (dda_start d sq))
                    = Inr (fst (dda_start d sq), s')
                 \<and> steps_done (move_state s'))
        \<and> (\<exists>s'. ticks cf (Suc (unat (total_steps d))) (fst (dda_start d sq))
                      (snd (dda_start d sq))
                    = Inr (d, s'))"
    if nn: "\<not> nullmove d" and ts': "uint (total_steps d) < 2 ^ 30"
      and nk: "sint (ms_n (move_state sq)) mod 4 = 1"
  proof -
    let ?d2 = "fst (dda_start d sq)"
    let ?s2 = "snd (dda_start d sq)"
    have ts: "uint (total_steps d) < 1073741824" using ts' by simp
    have d2: "?d2 = d\<lparr>live := True\<rparr>" by (rule dda_start_fields(1)[OF nn])
    have tsd: "total_steps ?d2 = total_steps d" by (simp add: d2)
    have orig: "?d2\<lparr>live := False\<rparr> = d" using dead by (simp add: d2)
    have lv: "live ?d2" by (simp add: d2)
    have n2: "n_ok (move_state ?s2)"
      using nk by (simp add: n_ok_def dda_start_fields(10)[OF nn])
    note inv = start_invariant[OF nn ts mx, of sq]
    have pos: "0 < unat (total_steps d)"
      using nn dda_create_deltas(7)[OF cr] by (simp add: unat_gt_0)
    have upto: "\<exists>s'. ticks cf k ?d2 ?s2 = Inr (?d2, s') \<and> n_ok (move_state s')
           \<and> axes_ok k ?d2 (move_state s') \<and> lead_axis k ?d2 (move_state s')"
      if "k \<le> unat (total_steps d)" for k
    proof -
      have "int (0 + k) \<le> uint (total_steps ?d2)"
        unfolding tsd uint_nat using that by linarith
      from ticks_while_stepping[OF inv(1) n2 inv(2) inv(3) this, of cf] show ?thesis by simp
    qed
    have stepping: "\<exists>s'. ticks cf k ?d2 ?s2 = Inr (?d2, s')
              \<and> did_step d (move_state s') \<and> \<not> steps_done (move_state s')"
      if "k < unat (total_steps d)" for k
    proof -
      from upto[of k] that obtain s' where t: "ticks cf k ?d2 ?s2 = Inr (?d2, s')"
        and l: "lead_axis k ?d2 (move_state s')" by auto
      have kk: "int k < uint (total_steps ?d2)" unfolding tsd uint_nat using that by linarith
      have "did_step ?d2 (move_state s')" by (rule step_axes_lead(1)[OF inv(1) l kk])
      then have ds: "did_step d (move_state s')"
        by (simp add: d2 did_step_def x_stepped_def y_stepped_def z_stepped_def e_stepped_def)
      then have "\<not> steps_done (move_state s')" using done_quiet(1) by blast
      then show ?thesis using t ds by blast
    qed
    from upto[of "unat (total_steps d)"] obtain sl where
      tl: "ticks cf (unat (total_steps d)) ?d2 ?s2 = Inr (?d2, sl)" and nl: "n_ok (move_state sl)"
      and al: "axes_ok (unat (total_steps d)) ?d2 (move_state sl)" by auto
    have "int (unat (total_steps d)) = uint (total_steps ?d2)" by (simp add: tsd)
    from axes_done[OF al this pos] have dn: "steps_done (move_state sl)" .
    from dda_step_runs[OF nl, of cf ?d2] obtain d' s' where
      st: "dda_step cf ?d2 sl = Inr (d', s')" by blast
    have "finished ?d2 (move_state sl) (move_state s')"
      using done_quiet[OF dn, of ?d2] dda_step_steps[OF st]
      by (simp add: finished_def steps_done_def)
    then have "d' = d" using dda_step_result(2)[OF st] orig by simp
    then have "ticks cf (Suc (unat (total_steps d))) ?d2 ?s2 = Inr (d, s')"
      using st tl by (simp add: ticks_last)
    then show ?thesis using lv stepping tl dn by blast
  qed
  show ?thesis using mx run by blast
qed

theorem move_ticks_witness:
  "total_steps planned_a = 6
   \<and> (\<exists>s'. ticks example_cfg 6 started_a running_a = Inr (started_a, s')
             \<and> steps_done (move_state s'))
   \<and> (\<exists>s'. ticks example_cfg 7 started_a running_a = Inr (planned_a, s'))"
proof -
  have h: "\<not> nullmove planned_a \<and> uint (total_steps planned_a) < 2 ^ 30
          \<and> sint (ms_n (move_state state_a)) mod 4 = 1"
    by (simp add: planned_a_def state_a_def init_state_def dda_init_def blank_state_def)
  have u: "unat (total_steps planned_a) = 6" by (simp add: planned_a_def)
  from move_ticks[OF created_a, of state_a] h show ?thesis
    unfolding start_a fst_conv snd_conv u by (simp add: planned_a_def)
qed

text \<open>
  The claim as stated fails in its count of interrupts: \<open>move_a\<close> has \<open>total_steps = 6\<close>,
  is still live after six interrupts and is completed by the seventh.
\<close>

theorem move_ticks_counterexample:
  "dda_create example_cfg blank_dda move_a init_state = Inr (planned_a, state_a)
   \<and> dda_start planned_a state_a = (started_a, running_a)
   \<and> total_steps planned_a = 6
   \<and> live (fst (projr (ticks example_cfg 6 started_a running_a)))
   \<and> ticks example_cfg 7 started_a running_a = Inr (planned_a, final_b)
   \<and> \<not> live planned_a"
  using created_a start_a ticks6_a ticks7_a by (simp add: planned_a_def)

end
